theory Spec2Isabelle
  imports Complex_Main "HOL-Library.Sublist" "HOL-Library.Word"
begin

section \<open>Data model\<close>

text \<open>
  The hunk absorption engine of \<^verbatim>\<open>cmt\<close>, embedded from the Go sources
  \<^verbatim>\<open>internal/git/absorb.go\<close>, \<^verbatim>\<open>internal/git/git.go\<close>,
  \<^verbatim>\<open>internal/ai/provider.go\<close>, the oracle client (\<^verbatim>\<open>parseAbsorbResponse\<close>),
  \<^verbatim>\<open>internal/ui/absorb.go\<close> and \<^verbatim>\<open>cmd/cmt/absorb.go\<close>.

  Go strings are byte strings: \<^typ>\<open>string\<close>. Go \<^verbatim>\<open>int\<close> values that are only
  compared and stored are \<^typ>\<open>int\<close>. A \<^verbatim>\<open>float64\<close> confidence is only ever copied
  and compared with \<^verbatim>\<open><\<close>; the values come out of a JSON number, so they are finite, and
  on finite values the comparison is the order of the reals: confidences are \<^typ>\<open>real\<close>.
  A Go run-time panic (slicing a string beyond its length) is the error value \<open>Panic\<close>.
  The records keep the fields the modelled functions read or write: the model name, the
  temperature and the token counts of the request and the response are left out.
\<close>

datatype error = Panic | Err string

record Hunk =
  FilePath :: string
  OldFilePath :: string
  IsNew :: bool
  IsDeleted :: bool
  IsRenamed :: bool
  Header :: string
  Content :: string
  Lines :: "string list"
  ContextBefore :: "string list"
  ContextAfter :: "string list"
  AddedLines :: "string list"
  RemovedLines :: "string list"
  OldStartLine :: int
  OldLineCount :: int
  NewStartLine :: int
  NewLineCount :: int

record CommitInfo =
  SHA :: string
  Message :: string
  Diff :: string

record AlternativeAssignment =
  alt_CommitSHA :: string
  alt_CommitMessage :: string
  alt_Confidence :: real
  alt_Reasoning :: string

record HunkAssignment =
  Hunk :: Hunk
  CommitSHA :: string
  CommitMessage :: string
  Confidence :: real
  Reasoning :: string
  Alternatives :: "AlternativeAssignment list"

record AbsorbRequest =
  Hunks :: "Hunk list"
  Commits :: "CommitInfo list"
  Strategy :: string
  ConfidenceThreshold :: real

record AbsorbResponse =
  Assignments :: "HunkAssignment list"
  UnmatchedHunks :: "Hunk list"

text \<open>
  The decoded oracle document (\<^verbatim>\<open>absorbJSONResponse\<close>): what \<^verbatim>\<open>json.Unmarshal\<close>
  delivers when the response text parses.
\<close>

record json_alternative =
  ja_CommitSHA :: string
  ja_Confidence :: real
  ja_Reasoning :: string

record json_assignment =
  HunkIndex :: int
  j_CommitSHA :: string
  j_Confidence :: real
  j_Reasoning :: string
  j_Alternatives :: "json_alternative list"

record absorbJSONResponse =
  j_Assignments :: "json_assignment list"
  j_UnmatchedHunks :: "int list"

section \<open>Oracle client: post-processing of the decoded document\<close>

text \<open>\<^verbatim>\<open>strings.Split(msg, "\n")[0]\<close>: the text before the first line feed.\<close>

definition firstLine :: "string \<Rightarrow> string" where
  "firstLine s = takeWhile (\<lambda>c. c \<noteq> CHR 0x0A) s"

text \<open>
  The commit lookup loop of \<^verbatim>\<open>parseAbsorbResponse\<close>: the first commit whose SHA starts
  with \<^verbatim>\<open>sha[:8]\<close> gives the full SHA and the first line of its message; with no such
  commit the SHA is kept as given and the message stays empty. \<^verbatim>\<open>sha[:8]\<close> is
  evaluated in every iteration and panics on a SHA shorter than 8 bytes.
\<close>

fun resolveCommit :: "CommitInfo list \<Rightarrow> string \<Rightarrow> error + (string \<times> string)" where
  "resolveCommit [] sha = Inr (sha, [])"
| "resolveCommit (c # cs) sha =
     (if length sha < 8 then Inl Panic
      else if prefix (take 8 sha) (SHA c) then Inr (SHA c, firstLine (Message c))
      else resolveCommit cs sha)"

fun processAlternatives ::
  "CommitInfo list \<Rightarrow> json_alternative list \<Rightarrow> AlternativeAssignment list
     \<Rightarrow> error + AlternativeAssignment list" where
  "processAlternatives cs [] acc = Inr acc"
| "processAlternatives cs (alt # alts) acc =
     (case resolveCommit cs (ja_CommitSHA alt) of
        Inl e \<Rightarrow> Inl e
      | Inr (sha, msg) \<Rightarrow>
          processAlternatives cs alts
            (acc @ [\<lparr>alt_CommitSHA = sha, alt_CommitMessage = msg,
                     alt_Confidence = ja_Confidence alt, alt_Reasoning = ja_Reasoning alt\<rparr>]))"

text \<open>
  The loop over the document's assignments. The state is the response under construction
  and the \<^verbatim>\<open>assignedHunks\<close> map (the set of keys mapped to true).
\<close>

fun processAssignments ::
  "AbsorbRequest \<Rightarrow> json_assignment list \<Rightarrow> AbsorbResponse \<times> int set
     \<Rightarrow> error + (AbsorbResponse \<times> int set)" where
  "processAssignments req [] st = Inr st"
| "processAssignments req (a # as) (resp, assignedHunks) =
     (if HunkIndex a < 0 \<or> HunkIndex a \<ge> int (length (Hunks req))
      then processAssignments req as (resp, assignedHunks)
      else
        (case resolveCommit (Commits req) (j_CommitSHA a) of
           Inl e \<Rightarrow> Inl e
         | Inr (sha, commitMessage) \<Rightarrow>
             (case processAlternatives (Commits req) (j_Alternatives a) [] of
                Inl e \<Rightarrow> Inl e
              | Inr alts \<Rightarrow>
                  (let hunk = Hunks req ! nat (HunkIndex a);
                       hunkAssignment = \<lparr>Hunk = hunk, CommitSHA = sha,
                          CommitMessage = commitMessage, Confidence = j_Confidence a,
                          Reasoning = j_Reasoning a, Alternatives = alts\<rparr>
                   in if Strategy req = ''best-match''
                         \<and> j_Confidence a < ConfidenceThreshold req
                      then processAssignments req as
                             (resp\<lparr>UnmatchedHunks := UnmatchedHunks resp @ [hunk]\<rparr>,
                              insert (HunkIndex a) assignedHunks)
                      else processAssignments req as
                             (resp\<lparr>Assignments := Assignments resp @ [hunkAssignment]\<rparr>,
                              insert (HunkIndex a) assignedHunks)))))"

text \<open>The loop over the document's \<^verbatim>\<open>unmatched_hunks\<close>.\<close>

fun processUnmatched :: "AbsorbRequest \<Rightarrow> int set \<Rightarrow> int list \<Rightarrow> AbsorbResponse \<Rightarrow> AbsorbResponse" where
  "processUnmatched req assignedHunks [] resp = resp"
| "processUnmatched req assignedHunks (idx # idxs) resp =
     (if idx \<ge> 0 \<and> idx < int (length (Hunks req)) \<and> idx \<notin> assignedHunks
      then processUnmatched req assignedHunks idxs
             (resp\<lparr>UnmatchedHunks := UnmatchedHunks resp @ [Hunks req ! nat idx]\<rparr>)
      else processUnmatched req assignedHunks idxs resp)"

text \<open>
  The closing loop over \<^verbatim>\<open>req.Hunks\<close> with its index: a hunk neither assigned nor
  listed by the document as unmatched is appended to the unmatched list.
\<close>

fun processUnmentioned ::
  "int set \<Rightarrow> int list \<Rightarrow> (nat \<times> Hunk) list \<Rightarrow> AbsorbResponse \<Rightarrow> AbsorbResponse" where
  "processUnmentioned assignedHunks unmatched [] resp = resp"
| "processUnmentioned assignedHunks unmatched ((i, hunk) # rest) resp =
     (if int i \<notin> assignedHunks \<and> int i \<notin> set unmatched
      then processUnmentioned assignedHunks unmatched rest
             (resp\<lparr>UnmatchedHunks := UnmatchedHunks resp @ [hunk]\<rparr>)
      else processUnmentioned assignedHunks unmatched rest resp)"

definition parseAbsorbResponse :: "absorbJSONResponse \<Rightarrow> AbsorbRequest \<Rightarrow> error + AbsorbResponse" where
  "parseAbsorbResponse jsonResp req =
     (case processAssignments req (j_Assignments jsonResp)
             (\<lparr>Assignments = [], UnmatchedHunks = []\<rparr>, {}) of
        Inl e \<Rightarrow> Inl e
      | Inr (resp, assignedHunks) \<Rightarrow>
          Inr (processUnmentioned assignedHunks (j_UnmatchedHunks jsonResp)
                 (zip [0 ..< length (Hunks req)] (Hunks req))
                 (processUnmatched req assignedHunks (j_UnmatchedHunks jsonResp) resp)))"


text \<open>Predicates used to state what the loops compute.\<close>

definition inRange :: "AbsorbRequest \<Rightarrow> int \<Rightarrow> bool" where
  "inRange req idx \<longleftrightarrow> 0 \<le> idx \<and> idx < int (length (Hunks req))"

definition demoted :: "AbsorbRequest \<Rightarrow> json_assignment \<Rightarrow> bool" where
  "demoted req a \<longleftrightarrow> Strategy req = ''best-match'' \<and> j_Confidence a < ConfidenceThreshold req"

definition hunkAt :: "AbsorbRequest \<Rightarrow> int \<Rightarrow> Hunk" where
  "hunkAt req idx = Hunks req ! nat idx"

definition built_from :: "AbsorbRequest \<Rightarrow> HunkAssignment \<Rightarrow> json_assignment \<Rightarrow> bool" where
  "built_from req x a \<longleftrightarrow>
     Hunk x = hunkAt req (HunkIndex a) \<and> Confidence x = j_Confidence a \<and>
     Reasoning x = j_Reasoning a \<and>
     map alt_Confidence (Alternatives x) = map ja_Confidence (j_Alternatives a)"

definition keptEntries :: "AbsorbRequest \<Rightarrow> absorbJSONResponse \<Rightarrow> json_assignment list" where
  "keptEntries req jsonResp =
     filter (\<lambda>a. inRange req (HunkIndex a) \<and> \<not> demoted req a) (j_Assignments jsonResp)"

definition demotedEntries :: "AbsorbRequest \<Rightarrow> absorbJSONResponse \<Rightarrow> json_assignment list" where
  "demotedEntries req jsonResp =
     filter (\<lambda>a. inRange req (HunkIndex a) \<and> demoted req a) (j_Assignments jsonResp)"

definition assignedIdx :: "AbsorbRequest \<Rightarrow> absorbJSONResponse \<Rightarrow> int set" where
  "assignedIdx req jsonResp =
     HunkIndex ` {a \<in> set (j_Assignments jsonResp). inRange req (HunkIndex a)}"


subsection \<open>Concrete inputs\<close>

text \<open>
  Two hunks (one in \<^verbatim>\<open>a.txt\<close> adding two lines, one creating \<^verbatim>\<open>b.txt\<close>) and two
  candidate commits, "fix a" and "add b".
\<close>

definition hunk_a :: Hunk where
  "hunk_a = \<lparr>FilePath = ''a.txt'', OldFilePath = ''a.txt'', IsNew = False, IsDeleted = False,
     IsRenamed = False, Header = ''@@ -1 +1,3 @@'',
     Content = ''@@ -1 +1,3 @@'' @ [CHR 0x0A] @ '' one'' @ [CHR 0x0A] @ ''+two'' @ [CHR 0x0A]
                 @ ''+three'' @ [CHR 0x0A],
     Lines = ['' one'', ''+two'', ''+three''],
     ContextBefore = [''one''], ContextAfter = [], AddedLines = [''two'', ''three''],
     RemovedLines = [], OldStartLine = 1, OldLineCount = 1, NewStartLine = 1, NewLineCount = 3\<rparr>"

definition hunk_b :: Hunk where
  "hunk_b = \<lparr>FilePath = ''b.txt'', OldFilePath = ''b.txt'', IsNew = True, IsDeleted = False,
     IsRenamed = False, Header = ''@@ -0,0 +1 @@'',
     Content = ''@@ -0,0 +1 @@'' @ [CHR 0x0A] @ ''+b'' @ [CHR 0x0A],
     Lines = [''+b''],
     ContextBefore = [], ContextAfter = [], AddedLines = [''b''],
     RemovedLines = [], OldStartLine = 0, OldLineCount = 0, NewStartLine = 1, NewLineCount = 1\<rparr>"

definition commit_1 :: CommitInfo where
  "commit_1 = \<lparr>SHA = ''1111111111aaaaaaaaaa'', Message = ''fix a'', Diff = []\<rparr>"

definition commit_2 :: CommitInfo where
  "commit_2 = \<lparr>SHA = ''2222222222bbbbbbbbbb'', Message = ''add b'', Diff = []\<rparr>"

definition entry :: "int \<Rightarrow> string \<Rightarrow> real \<Rightarrow> json_alternative list \<Rightarrow> json_assignment" where
  "entry i sha c alts = \<lparr>HunkIndex = i, j_CommitSHA = sha, j_Confidence = c,
     j_Reasoning = ''why'', j_Alternatives = alts\<rparr>"

definition request_bm :: AbsorbRequest where
  "request_bm = \<lparr>Hunks = [hunk_a, hunk_b], Commits = [commit_1, commit_2],
     Strategy = ''best-match'', ConfidenceThreshold = 0.7\<rparr>"

definition request_ia :: AbsorbRequest where
  "request_ia = \<lparr>Hunks = [hunk_a, hunk_b], Commits = [commit_1, commit_2],
     Strategy = ''interactive'', ConfidenceThreshold = 0.7\<rparr>"

text \<open>Hunk 0 to "fix a" with confidence 0.9, hunk 1 to "add b" with confidence 0.5.\<close>

definition doc_plain :: absorbJSONResponse where
  "doc_plain = \<lparr>j_Assignments = [entry 0 ''11111111'' 0.9 [], entry 1 ''22222222'' 0.5 []],
     j_UnmatchedHunks = []\<rparr>"

definition resp_plain :: AbsorbResponse where
  "resp_plain = \<lparr>Assignments = [\<lparr>Hunk = hunk_a, CommitSHA = ''1111111111aaaaaaaaaa'',
        CommitMessage = ''fix a'', Confidence = 0.9, Reasoning = ''why'', Alternatives = []\<rparr>],
     UnmatchedHunks = [hunk_b]\<rparr>"

text \<open>Hunk 0 named twice: once above the threshold, once below it.\<close>

definition doc_twice :: absorbJSONResponse where
  "doc_twice = \<lparr>j_Assignments = [entry 0 ''11111111'' 0.9 [], entry 0 ''22222222'' 0.5 []],
     j_UnmatchedHunks = [1]\<rparr>"

definition resp_twice :: AbsorbResponse where
  "resp_twice = \<lparr>Assignments = [\<lparr>Hunk = hunk_a, CommitSHA = ''1111111111aaaaaaaaaa'',
        CommitMessage = ''fix a'', Confidence = 0.9, Reasoning = ''why'', Alternatives = []\<rparr>],
     UnmatchedHunks = [hunk_a, hunk_b]\<rparr>"

text \<open>Hunk 0 named twice, the entry below the threshold first.\<close>

definition doc_low_first :: absorbJSONResponse where
  "doc_low_first = \<lparr>j_Assignments = [entry 0 ''11111111'' 0.5 [], entry 0 ''22222222'' 0.95 []],
     j_UnmatchedHunks = [1]\<rparr>"

definition resp_low_first :: AbsorbResponse where
  "resp_low_first = \<lparr>Assignments = [\<lparr>Hunk = hunk_a, CommitSHA = ''2222222222bbbbbbbbbb'',
        CommitMessage = ''add b'', Confidence = 0.95, Reasoning = ''why'', Alternatives = []\<rparr>],
     UnmatchedHunks = [hunk_a, hunk_b]\<rparr>"



section \<open>Strings, line scanning and integer scanning\<close>

text \<open>
  The functions of Go's \<^verbatim>\<open>strings\<close>, \<^verbatim>\<open>bufio\<close> and \<^verbatim>\<open>fmt\<close> packages that the
  parser and the state file reader call, on byte strings.
\<close>

definition LF :: char where
  "LF = CHR 0x0A"

definition CR :: char where
  "CR = CHR 0x0D"

definition HasPrefix :: "string \<Rightarrow> string \<Rightarrow> bool" where
  "HasPrefix s p = prefix p s"

definition TrimPrefix :: "string \<Rightarrow> string \<Rightarrow> string" where
  "TrimPrefix s p = (if prefix p s then drop (length p) s else s)"

fun Contains :: "string \<Rightarrow> string \<Rightarrow> bool" where
  "Contains [] p = (p = [])"
| "Contains (c # cs) p = (prefix p (c # cs) \<or> Contains cs p)"

fun Index :: "string \<Rightarrow> string \<Rightarrow> nat option" where
  "Index [] p = (if p = [] then Some 0 else None)"
| "Index (c # cs) p = (if prefix p (c # cs) then Some 0 else map_option Suc (Index cs p))"

fun LastIndex :: "string \<Rightarrow> string \<Rightarrow> nat option" where
  "LastIndex [] p = (if p = [] then Some 0 else None)"
| "LastIndex (c # cs) p =
     (case LastIndex cs p of
        Some i \<Rightarrow> Some (Suc i)
      | None \<Rightarrow> if prefix p (c # cs) then Some 0 else None)"

text \<open>\<^verbatim>\<open>strings.Split(s, sep)\<close> for a separator of one byte; \<open>cur\<close> is the piece being read.\<close>

fun splitOn :: "char \<Rightarrow> string \<Rightarrow> string \<Rightarrow> string list" where
  "splitOn sep cur [] = [cur]"
| "splitOn sep cur (c # cs) =
     (if c = sep then cur # splitOn sep [] cs else splitOn sep (cur @ [c]) cs)"

definition Split :: "string \<Rightarrow> char \<Rightarrow> string list" where
  "Split s sep = splitOn sep [] s"

text \<open>
  \<^verbatim>\<open>strings.SplitN(s, sep, 2)\<close> cuts at the first separator; without one it returns the one
  piece \<open>s\<close>, which is \<open>None\<close> here.
\<close>

definition SplitN2 :: "string \<Rightarrow> char \<Rightarrow> (string \<times> string) option" where
  "SplitN2 s sep =
     (if sep \<in> set s
      then Some (takeWhile (\<lambda>c. c \<noteq> sep) s, tl (dropWhile (\<lambda>c. c \<noteq> sep) s))
      else None)"

text \<open>White space, for the ASCII bytes (Unicode spaces beyond ASCII are not modelled).\<close>

definition isSpace :: "char \<Rightarrow> bool" where
  "isSpace c \<longleftrightarrow> c \<in> {CHR '' '', CHR 0x09, CHR 0x0A, CHR 0x0B, CHR 0x0C, CHR 0x0D}"

definition TrimSpace :: "string \<Rightarrow> string" where
  "TrimSpace s = rev (dropWhile isSpace (rev (dropWhile isSpace s)))"

fun fieldsFrom :: "string \<Rightarrow> string \<Rightarrow> string list" where
  "fieldsFrom cur [] = (if cur = [] then [] else [cur])"
| "fieldsFrom cur (c # cs) =
     (if isSpace c then (if cur = [] then fieldsFrom [] cs else cur # fieldsFrom [] cs)
      else fieldsFrom (cur @ [c]) cs)"

definition Fields :: "string \<Rightarrow> string list" where
  "Fields s = fieldsFrom [] s"

text \<open>
  \<^verbatim>\<open>bufio.Scanner\<close> with the default split function \<^verbatim>\<open>ScanLines\<close>: the input is cut
  at every line feed, a last piece without line feed is a line when it is not empty, and
  one trailing carriage return is dropped from every line. A line must fit the scanner's
  buffer, which grows to \<^verbatim>\<open>MaxScanTokenSize\<close> = 64 KiB: at the first line of 65536 bytes or
  more the scanner stops with \<^verbatim>\<open>ErrTooLong\<close>. \<open>scanLines\<close> returns the lines delivered
  and whether the scanner stopped with that error.
\<close>

definition maxTokenSize :: nat where
  "maxTokenSize = 65536"

definition dropCR :: "string \<Rightarrow> string" where
  "dropCR s = (if s \<noteq> [] \<and> last s = CR then butlast s else s)"

fun splitLF :: "string \<Rightarrow> string \<Rightarrow> string list" where
  "splitLF cur [] = (if cur = [] then [] else [cur])"
| "splitLF cur (c # cs) =
     (if c = LF then cur # splitLF [] cs else splitLF (cur @ [c]) cs)"

definition scanLines :: "string \<Rightarrow> string list \<times> bool" where
  "scanLines s =
     (let raw = splitLF [] s;
          ok = takeWhile (\<lambda>l. length l < maxTokenSize) raw
      in (map dropCR ok, length ok < length raw))"

text \<open>
  \<^verbatim>\<open>fmt.Sscanf(s, "%d", &n)\<close> for a 64-bit \<open>n\<close>: blanks are skipped (a line feed is an
  error), then an optional sign and at least one decimal digit are read; what follows the
  digits is ignored. A value outside the 64-bit range is an error. On an error \<open>n\<close> is
  left as it was: \<open>None\<close>.
\<close>

definition isDigit :: "char \<Rightarrow> bool" where
  "isDigit c \<longleftrightarrow> 48 \<le> (of_char c :: nat) \<and> (of_char c :: nat) \<le> 57"

definition digitVal :: "char \<Rightarrow> nat" where
  "digitVal c = of_char c - 48"

definition natOfDigits :: "string \<Rightarrow> nat" where
  "natOfDigits ds = foldl (\<lambda>acc c. acc * 10 + digitVal c) 0 ds"

definition isBlank :: "char \<Rightarrow> bool" where
  "isBlank c \<longleftrightarrow> isSpace c \<and> c \<noteq> LF"

definition sscanf_d :: "string \<Rightarrow> int option" where
  "sscanf_d s =
     (let s1 = dropWhile isBlank s;
          neg = (s1 \<noteq> [] \<and> hd s1 = CHR ''-'');
          s2 = (if s1 \<noteq> [] \<and> (hd s1 = CHR ''-'' \<or> hd s1 = CHR ''+'') then tl s1 else s1);
          ds = takeWhile isDigit s2;
          v = (if neg then - int (natOfDigits ds) else int (natOfDigits ds))
      in if ds = [] then None
         else if v < - (2 ^ 63) \<or> 2 ^ 63 \<le> v then None
         else Some v)"

text \<open>\<^verbatim>\<open>%d\<close> of \<^verbatim>\<open>fmt.Fprintf\<close>: the decimal digits, with a minus sign below zero.\<close>

definition digitChar :: "nat \<Rightarrow> char" where
  "digitChar d = ''0123456789'' ! d"

fun showNat :: "nat \<Rightarrow> string" where
  "showNat n =
     (if n < 10 then [digitChar n]
      else showNat (n div 10) @ [digitChar (n mod 10)])"

declare showNat.simps [simp del]

definition showInt :: "int \<Rightarrow> string" where
  "showInt i = (if i < 0 then CHR ''-'' # showNat (nat (- i)) else showNat (nat i))"

section \<open>Diff parser\<close>

text \<open>
  \<^verbatim>\<open>parseLineRange\<close>: \<^verbatim>\<open>"10,5"\<close> or \<^verbatim>\<open>"10"\<close>; the start defaults to 0 when its text is
  empty, the count to 1 when there is no comma.
\<close>

definition parseLineRange :: "string \<Rightarrow> error + (int \<times> int)" where
  "parseLineRange rangeStr =
     (let parts = Split rangeStr (CHR '','') in
      case (if parts ! 0 \<noteq> [] then sscanf_d (parts ! 0) else Some 0) of
        None \<Rightarrow> Inl (Err (''invalid start line: '' @ parts ! 0))
      | Some start \<Rightarrow>
          if length parts \<ge> 2
          then (case sscanf_d (parts ! 1) of
                  None \<Rightarrow> Inl (Err (''invalid line count: '' @ parts ! 1))
                | Some count \<Rightarrow> Inr (start, count))
          else Inr (start, 1))"

text \<open>
  \<^verbatim>\<open>parseHunkHeader\<close>: the text between the first and the last \<^verbatim>\<open>@@\<close> must be two
  fields, the old and the new range. The slice \<^verbatim>\<open>header[startIdx+2 : endIdx]\<close> panics
  when the two markers overlap (\<^verbatim>\<open>@@@\<close>). The result is old start, old count, new
  start, new count.
\<close>

definition parseHunkHeader :: "string \<Rightarrow> error + (int \<times> int \<times> int \<times> int)" where
  "parseHunkHeader header =
     (case (Index header ''@@'', LastIndex header ''@@'') of
        (Some startIdx, Some endIdx) \<Rightarrow>
          if startIdx = endIdx then Inl (Err (''invalid hunk header format: '' @ header))
          else if endIdx < startIdx + 2 then Inl Panic
          else
            (let lineInfo = TrimSpace (take (endIdx - (startIdx + 2)) (drop (startIdx + 2) header));
                 parts = Fields lineInfo
             in if length parts \<noteq> 2 then Inl (Err (''invalid line info format: '' @ lineInfo))
                else
                  (case parseLineRange (TrimPrefix (parts ! 0) ''-'') of
                     Inl e \<Rightarrow> Inl (Err ''failed to parse old line range'')
                   | Inr (os, oc) \<Rightarrow>
                       (case parseLineRange (TrimPrefix (parts ! 1) ''+'') of
                          Inl e \<Rightarrow> Inl (Err ''failed to parse new line range'')
                        | Inr (ns, nc) \<Rightarrow> Inr (os, oc, ns, nc))))
      | _ \<Rightarrow> Inl (Err (''invalid hunk header format: '' @ header)))"

text \<open>The local variables of \<^verbatim>\<open>SplitDiffIntoHunks\<close>.\<close>

record parser_state =
  hunks :: "Hunk list"
  currentFile :: string
  oldFile :: string
  isNew :: bool
  isDeleted :: bool
  isRenamed :: bool
  currentHunk :: "Hunk option"
  inHunk :: bool

definition initial_parser :: parser_state where
  "initial_parser = \<lparr>hunks = [], currentFile = [], oldFile = [], isNew = False,
     isDeleted = False, isRenamed = False, currentHunk = None, inHunk = False\<rparr>"

text \<open>"Save previous hunk if exists": the append of an open hunk to the result.\<close>

definition saveHunk :: "parser_state \<Rightarrow> parser_state" where
  "saveHunk s =
     (case currentHunk s of
        Some h \<Rightarrow> if inHunk s then s\<lparr>hunks := hunks s @ [h]\<rparr> else s
      | None \<Rightarrow> s)"

text \<open>The branch for a \<^verbatim>\<open>diff --git\<close> line.\<close>

definition onFileHeader :: "string \<Rightarrow> parser_state \<Rightarrow> parser_state" where
  "onFileHeader line s =
     (if HasPrefix line ''diff --git'' then
        (let s1 = (if currentHunk s \<noteq> None \<and> inHunk s
                   then (saveHunk s)\<lparr>currentHunk := None, inHunk := False\<rparr> else s);
             parts = Split line (CHR '' '');
             s2 = (if length parts \<ge> 4
                   then s1\<lparr>currentFile := TrimPrefix (parts ! 3) ''b/'',
                           oldFile := TrimPrefix (parts ! 2) ''a/''\<rparr>
                   else s1)
         in s2\<lparr>isNew := False, isDeleted := False, isRenamed := False\<rparr>)
      else s)"

text \<open>The chain for the file status headers.\<close>

definition onStatusHeader :: "string \<Rightarrow> parser_state \<Rightarrow> parser_state" where
  "onStatusHeader line s =
     (if HasPrefix line ''new file mode'' then s\<lparr>isNew := True\<rparr>
      else if HasPrefix line ''deleted file mode'' then s\<lparr>isDeleted := True\<rparr>
      else if HasPrefix line ''rename from''
        then s\<lparr>isRenamed := True, oldFile := TrimPrefix line ''rename from ''\<rparr>
      else if HasPrefix line ''rename to''
        then s\<lparr>currentFile := TrimPrefix line ''rename to ''\<rparr>
      else s)"

text \<open>A line inside a hunk: appended to the body, then put in one of the line groups.\<close>

definition addLine :: "string \<Rightarrow> Hunk \<Rightarrow> Hunk" where
  "addLine line h =
     (let h1 = h\<lparr>Content := Content h @ line @ [LF], Lines := Lines h @ [line]\<rparr> in
      if HasPrefix line ''+'' \<and> \<not> HasPrefix line ''+++''
        then h1\<lparr>AddedLines := AddedLines h1 @ [TrimPrefix line ''+'']\<rparr>
      else if HasPrefix line ''-'' \<and> \<not> HasPrefix line ''---''
        then h1\<lparr>RemovedLines := RemovedLines h1 @ [TrimPrefix line ''-'']\<rparr>
      else if HasPrefix line '' ''
        then (if length (AddedLines h1) = 0 \<and> length (RemovedLines h1) = 0
              then h1\<lparr>ContextBefore := ContextBefore h1 @ [TrimPrefix line '' '']\<rparr>
              else h1\<lparr>ContextAfter := ContextAfter h1 @ [TrimPrefix line '' '']\<rparr>)
      else h1)"

text \<open>The branch for a hunk header, and otherwise for a line of an open hunk.\<close>

definition onHunkLine :: "string \<Rightarrow> parser_state \<Rightarrow> error + parser_state" where
  "onHunkLine line s =
     (if HasPrefix line ''@@'' \<and> Contains line ''@@'' then
        (case parseHunkHeader line of
           Inl Panic \<Rightarrow> Inl Panic
         | Inl (Err e) \<Rightarrow> Inl (Err (''failed to parse hunk header: '' @ e))
         | Inr (os, oc, ns, nc) \<Rightarrow>
             Inr ((saveHunk s)\<lparr>currentHunk := Some
                    \<lparr>FilePath = currentFile s, OldFilePath = oldFile s, IsNew = isNew s,
                     IsDeleted = isDeleted s, IsRenamed = isRenamed s, Header = line,
                     Content = line @ [LF], Lines = [], ContextBefore = [], ContextAfter = [],
                     AddedLines = [], RemovedLines = [], OldStartLine = os, OldLineCount = oc,
                     NewStartLine = ns, NewLineCount = nc\<rparr>,
                   inHunk := True\<rparr>))
      else
        (case currentHunk s of
           Some h \<Rightarrow> if inHunk s then Inr (s\<lparr>currentHunk := Some (addLine line h)\<rparr>) else Inr s
         | None \<Rightarrow> Inr s))"

definition parseLine :: "string \<Rightarrow> parser_state \<Rightarrow> error + parser_state" where
  "parseLine line s = onHunkLine line (onStatusHeader line (onFileHeader line s))"

fun parseLines :: "string list \<Rightarrow> parser_state \<Rightarrow> error + parser_state" where
  "parseLines [] s = Inr s"
| "parseLines (line # rest) s =
     (case parseLine line s of Inl e \<Rightarrow> Inl e | Inr s' \<Rightarrow> parseLines rest s')"

definition SplitDiffIntoHunks :: "string \<Rightarrow> error + Hunk list" where
  "SplitDiffIntoHunks diff =
     (case scanLines diff of
        (lines, tooLong) \<Rightarrow>
          (case parseLines lines initial_parser of
             Inl e \<Rightarrow> Inl e
           | Inr s \<Rightarrow>
               if tooLong then Inl (Err ''failed to scan diff: bufio.Scanner: token too long'')
               else Inr (hunks (saveHunk s))))"

text \<open>
  The kinds of body line, as \<open>addLine\<close> tells them apart, and the reconstruction of a
  hunk body from the line groups: context-before, then the removed and added lines in the
  order of the body, then context-after, each line with its marker.
\<close>

definition isAdded :: "string \<Rightarrow> bool" where
  "isAdded line \<longleftrightarrow> HasPrefix line ''+'' \<and> \<not> HasPrefix line ''+++''"

definition isRemoved :: "string \<Rightarrow> bool" where
  "isRemoved line \<longleftrightarrow> HasPrefix line ''-'' \<and> \<not> HasPrefix line ''---''"

definition isChange :: "string \<Rightarrow> bool" where
  "isChange line \<longleftrightarrow> isAdded line \<or> isRemoved line"

definition isContext :: "string \<Rightarrow> bool" where
  "isContext line \<longleftrightarrow> \<not> isChange line \<and> HasPrefix line '' ''"

definition changedLines :: "Hunk \<Rightarrow> string list" where
  "changedLines h = filter isChange (Lines h)"



text \<open>The body text: every line followed by a line feed.\<close>

definition bodyText :: "string list \<Rightarrow> string" where
  "bodyText ls = concat (map (\<lambda>l. l @ [LF]) ls)"

subsection \<open>Concrete diffs\<close>




text \<open>
  What the line groups of a hunk are in terms of its body, and the invariant of the parser
  loop: every saved hunk and the open hunk are classified so.
\<close>

definition classified :: "Hunk \<Rightarrow> bool" where
  "classified h \<longleftrightarrow>
     AddedLines h = map (\<lambda>l. TrimPrefix l ''+'') (filter isAdded (Lines h)) \<and>
     RemovedLines h = map (\<lambda>l. TrimPrefix l ''-'') (filter isRemoved (Lines h)) \<and>
     ContextBefore h = map (\<lambda>l. TrimPrefix l '' '')
        (filter isContext (takeWhile (\<lambda>l. \<not> isChange l) (Lines h))) \<and>
     ContextAfter h = map (\<lambda>l. TrimPrefix l '' '')
        (filter isContext (dropWhile (\<lambda>l. \<not> isChange l) (Lines h))) \<and>
     Content h = Header h @ [LF] @ bodyText (Lines h)"

definition parser_inv :: "parser_state \<Rightarrow> bool" where
  "parser_inv s \<longleftrightarrow> (\<forall>h \<in> set (hunks s). classified h) \<and>
     (\<forall>h. currentHunk s = Some h \<longrightarrow> classified h)"

section \<open>Repository and file system\<close>

text \<open>
  The world the git layer acts on: the answer of \<^verbatim>\<open>git rev-parse --show-toplevel\<close>,
  the files of the private metadata directory, the checked-out branch, the branch heads,
  the references of the backup namespace with the commits they name (in the order
  \<^verbatim>\<open>git show-ref\<close> lists them), the stash stack, the lines printed so far, and the
  git commands run so far, each with its outcome. \<open>fails\<close> is the environment: the git
  invocations that exit non-zero whatever the state (a conflict, a lock, a missing file).
  \<open>exitCode\<close> is how such an invocation fails: \<open>Some n\<close> when the error of the command is
  an \<^verbatim>\<open>*exec.ExitError\<close> whose \<^verbatim>\<open>ExitCode()\<close> is \<open>n\<close>, \<open>None\<close> when it is any other error
  (the program could not be started).
  \<open>mapOrder\<close> is the order in which a \<^verbatim>\<open>range\<close> over a Go map from strings to hunk
  lists visits the entries, given in insertion order; Go leaves that order unspecified.
  The file system itself is taken as reliable: creating, writing and removing the state
  file succeed.
\<close>

datatype git_cmd =
    GitCheckout string
  | GitResetMixed string
  | GitStashPop
  | GitUpdateRefDelete string
  | GitShowRef
  | GitCheckoutHead string
  | GitApplyIndex string
  | GitCommitFixup string string

record world =
  rootPath :: "string option"
  files :: "string \<rightharpoonup> string"
  branch :: string
  heads :: "string \<rightharpoonup> string"
  refs :: "(string \<times> string) list"
  stashes :: "string list"
  fails :: "git_cmd \<Rightarrow> bool"
  exitCode :: "git_cmd \<Rightarrow> int option"
  mapOrder :: "(string \<times> Hunk list) list \<Rightarrow> (string \<times> Hunk list) list"
  trace :: "(git_cmd \<times> bool) list"
  printed :: "string list"

text \<open>When a git command succeeds, and what it then does to the world.\<close>

fun succeeds :: "git_cmd \<Rightarrow> world \<Rightarrow> bool" where
  "succeeds (GitCheckout b) w = (\<not> fails w (GitCheckout b) \<and> heads w b \<noteq> None)"
| "succeeds (GitResetMixed r) w = (\<not> fails w (GitResetMixed r) \<and> map_of (refs w) r \<noteq> None)"
| "succeeds GitStashPop w = (\<not> fails w GitStashPop \<and> stashes w \<noteq> [])"
| "succeeds c w = (\<not> fails w c)"

fun effect :: "git_cmd \<Rightarrow> world \<Rightarrow> world" where
  "effect (GitCheckout b) w = w\<lparr>branch := b\<rparr>"
| "effect (GitResetMixed r) w = w\<lparr>heads := (heads w)(branch w := map_of (refs w) r)\<rparr>"
| "effect GitStashPop w = w\<lparr>stashes := tl (stashes w)\<rparr>"
| "effect (GitUpdateRefDelete r) w = w\<lparr>refs := filter (\<lambda>p. fst p \<noteq> r) (refs w)\<rparr>"
| "effect c w = w"

definition run :: "git_cmd \<Rightarrow> world \<Rightarrow> bool \<times> world" where
  "run c w =
     (let ok = succeeds c w; w1 = (if ok then effect c w else w)
      in (ok, w1\<lparr>trace := trace w @ [(c, ok)]\<rparr>))"

definition Println :: "string \<Rightarrow> world \<Rightarrow> world" where
  "Println msg w = w\<lparr>printed := printed w @ [msg]\<rparr>"

section \<open>Persisted undo state\<close>

record AbsorbState =
  OriginalHEAD :: string
  BackupRef :: string
  Operations :: "string list"
  Timestamp :: "64 word"
  CurrentBranch :: string
  StashSHA :: string

text \<open>
  \<^verbatim>\<open>filepath.Join(rootPath, ".git", "cmt", "absorb-undo")\<close>; writer and reader compute
  the same path, the cleaning of the path by \<^verbatim>\<open>Join\<close> is left out.
\<close>

definition stateFilePath :: "string \<Rightarrow> string" where
  "stateFilePath rootDir = rootDir @ ''/.git/cmt/absorb-undo''"

text \<open>
  A line \<^verbatim>\<open>key=value\<close>, as \<^verbatim>\<open>fmt.Fprintf(file, "key=%s\n", value)\<close> prints it
  (without the line feed), and the lines \<^verbatim>\<open>SaveAbsorbState\<close> prints, in order.
\<close>

definition keyValue :: "string \<Rightarrow> string \<Rightarrow> string" where
  "keyValue key val = key @ CHR ''='' # val"

definition stateLines :: "AbsorbState \<Rightarrow> string list" where
  "stateLines state =
     [keyValue ''original_head'' (OriginalHEAD state),
      keyValue ''backup_ref'' (BackupRef state),
      keyValue ''current_branch'' (CurrentBranch state),
      keyValue ''timestamp'' (showInt (sint (Timestamp state)))]
     @ (if StashSHA state \<noteq> [] then [keyValue ''stash_sha'' (StashSHA state)] else [])
     @ map (keyValue ''operation'') (Operations state)"

definition SaveAbsorbState :: "world \<Rightarrow> AbsorbState \<Rightarrow> error + world" where
  "SaveAbsorbState w state =
     (case rootPath w of
        None \<Rightarrow> Inl (Err ''failed to get repository rootDir'')
      | Some rootDir \<Rightarrow>
          Inr (w\<lparr>files := (files w)(stateFilePath rootDir \<mapsto> bodyText (stateLines state))\<rparr>))"

definition emptyState :: AbsorbState where
  "emptyState = \<lparr>OriginalHEAD = [], BackupRef = [], Operations = [], Timestamp = 0,
     CurrentBranch = [], StashSHA = []\<rparr>"

text \<open>The body of the reading loop: one line of the state file.\<close>

definition loadLine :: "AbsorbState \<Rightarrow> string \<Rightarrow> AbsorbState" where
  "loadLine state line =
     (case SplitN2 line (CHR ''='') of
        None \<Rightarrow> state
      | Some (key, val) \<Rightarrow>
          if key = ''original_head'' then state\<lparr>OriginalHEAD := val\<rparr>
          else if key = ''backup_ref'' then state\<lparr>BackupRef := val\<rparr>
          else if key = ''current_branch'' then state\<lparr>CurrentBranch := val\<rparr>
          else if key = ''timestamp''
            then (case sscanf_d val of
                    Some n \<Rightarrow> state\<lparr>Timestamp := word_of_int n\<rparr>
                  | None \<Rightarrow> state)
          else if key = ''stash_sha'' then state\<lparr>StashSHA := val\<rparr>
          else if key = ''operation'' then state\<lparr>Operations := Operations state @ [val]\<rparr>
          else state)"

definition LoadAbsorbState :: "world \<Rightarrow> error + AbsorbState" where
  "LoadAbsorbState w =
     (case rootPath w of
        None \<Rightarrow> Inl (Err ''failed to get repository rootDir'')
      | Some rootDir \<Rightarrow>
          (case files w (stateFilePath rootDir) of
             None \<Rightarrow> Inl (Err ''no absorb state found to undo'')
           | Some content \<Rightarrow>
               (case scanLines content of
                  (lines, tooLong) \<Rightarrow>
                    if tooLong
                    then Inl (Err ''failed to read state file: bufio.Scanner: token too long'')
                    else Inr (foldl loadLine emptyState lines))))"

text \<open>
  A field value that survives the state file: no line feed, no carriage return at its end,
  and its line below the token limit of the scanner.
\<close>

definition storable :: "string \<Rightarrow> string \<Rightarrow> bool" where
  "storable key val \<longleftrightarrow> LF \<notin> set val \<and> (val = [] \<or> last val \<noteq> CR)
     \<and> length key + 1 + length val < maxTokenSize"

definition storableState :: "AbsorbState \<Rightarrow> bool" where
  "storableState state \<longleftrightarrow>
     storable ''original_head'' (OriginalHEAD state) \<and>
     storable ''backup_ref'' (BackupRef state) \<and>
     storable ''current_branch'' (CurrentBranch state) \<and>
     storable ''stash_sha'' (StashSHA state) \<and>
     list_all (storable ''operation'') (Operations state)"

text \<open>A line the scanner delivers unchanged.\<close>

definition scannable :: "string \<Rightarrow> bool" where
  "scannable l \<longleftrightarrow> LF \<notin> set l \<and> length l < maxTokenSize \<and> (l = [] \<or> last l \<noteq> CR)"

subsection \<open>Concrete repository and states\<close>

text \<open>A repository at \<^verbatim>\<open>/repo\<close> on branch \<^verbatim>\<open>main\<close>, where no git command fails.\<close>

definition world0 :: world where
  "world0 = \<lparr>rootPath = Some ''/repo'', files = Map.empty, branch = ''main'',
     heads = [''main'' \<mapsto> ''c3''], refs = [], stashes = [], fails = (\<lambda>c. False),
     exitCode = (\<lambda>c. Some 128), mapOrder = (\<lambda>m. m), trace = [], printed = []\<rparr>"

text \<open>A state whose OriginalHEAD ends in a carriage return, and an ordinary one.\<close>

definition state_cr :: AbsorbState where
  "state_cr = \<lparr>OriginalHEAD = ''abc'' @ [CR], BackupRef = ''refs/cmt-backup/absorb-17'',
     Operations = [''Created 1 fixup commits''], Timestamp = 1700000000,
     CurrentBranch = ''main'', StashSHA = []\<rparr>"

definition state_ok :: AbsorbState where
  "state_ok = \<lparr>OriginalHEAD = ''c3'', BackupRef = ''refs/cmt-backup/absorb-17'',
     Operations = [''Created 2 fixup commits'', ''Backup ref: refs/cmt-backup/absorb-17'', ''a=b=c''],
     Timestamp = 1700000000, CurrentBranch = ''main'', StashSHA = []\<rparr>"

section \<open>Git operations\<close>

text \<open>
  The wrappers of \<^verbatim>\<open>internal/git/git.go\<close>. The error values carry the message of the
  wrapper; the text git prints on its standard error is left out, and so are the emoji
  in front of the printed warnings.
\<close>

definition errorText :: "error \<Rightarrow> string" where
  "errorText e = (case e of Panic \<Rightarrow> ''panic'' | Err m \<Rightarrow> m)"

definition StashPop :: "world \<Rightarrow> error option \<times> world" where
  "StashPop w =
     (case run GitStashPop w of
        (ok, w') \<Rightarrow> if ok then (None, w') else (Some (Err ''git stash pop failed''), w'))"

definition DeleteBackupRef :: "string \<Rightarrow> world \<Rightarrow> error option \<times> world" where
  "DeleteBackupRef refPath w =
     (case run (GitUpdateRefDelete refPath) w of
        (ok, w') \<Rightarrow>
          if ok then (None, w')
          else (Some (Err (''failed to delete backup ref '' @ refPath)), w'))"


text \<open>\<^verbatim>\<open>CreateFixupCommit\<close>: the default message slices \<^verbatim>\<open>targetSHA[:7]\<close>.\<close>

definition CreateFixupCommit :: "string \<Rightarrow> string \<Rightarrow> world \<Rightarrow> error option \<times> world" where
  "CreateFixupCommit targetSHA message w =
     (if message = [] \<and> length targetSHA < 7 then (Some Panic, w)
      else
        (let msg = (if message = [] then ''fixup! '' @ take 7 targetSHA else message) in
         case run (GitCommitFixup targetSHA msg) w of
           (ok, w') \<Rightarrow>
             if ok then (None, w') else (Some (Err ''failed to create fixup commit''), w')))"

text \<open>\<^verbatim>\<open>os.Remove\<close>.\<close>

definition removeFile :: "string \<Rightarrow> world \<Rightarrow> world" where
  "removeFile path w = w\<lparr>files := (files w)(path := None)\<rparr>"

section \<open>Undo\<close>

definition UndoAbsorb :: "world \<Rightarrow> error option \<times> world" where
  "UndoAbsorb w =
     (case LoadAbsorbState w of
        Inl e \<Rightarrow> (Some e, w)
      | Inr state \<Rightarrow>
          if BackupRef state = [] then (Some (Err ''no backup reference found in state''), w)
          else
            (case run (GitCheckout (CurrentBranch state)) w of
               (ok1, w1) \<Rightarrow>
                 if \<not> ok1 then (Some (Err ''failed to checkout original branch''), w1)
                 else
                   (case run (GitResetMixed (BackupRef state)) w1 of
                      (ok2, w2) \<Rightarrow>
                        if \<not> ok2 then (Some (Err ''failed to reset to backup''), w2)
                        else
                          (let w3 = (if StashSHA state \<noteq> [] then
                                       (case StashPop w2 of
                                          (Some e, w') \<Rightarrow>
                                            Println ''   You may need to manually run: git stash pop''
                                              (Println (''Warning: Could not restore stashed changes: ''
                                                          @ errorText e) w')
                                        | (None, w') \<Rightarrow> w')
                                     else w2);
                               w4 = (case DeleteBackupRef (BackupRef state) w3 of
                                       (Some e, w') \<Rightarrow>
                                         Println (''Warning: Could not delete backup ref: ''
                                                    @ errorText e) w'
                                     | (None, w') \<Rightarrow> w');
                               rootDir = (case rootPath w4 of Some r \<Rightarrow> r | None \<Rightarrow> [])
                           in (None, removeFile (stateFilePath rootDir) w4)))))"

text \<open>The git commands a call has run: what it appended to the trace.\<close>

definition newTrace :: "world \<Rightarrow> world \<Rightarrow> (git_cmd \<times> bool) list" where
  "newTrace w w' = drop (length (trace w)) (trace w')"

section \<open>Cleanup of backups\<close>





section \<open>Fixup application\<close>

text \<open>
  A Go map from strings to hunk lists, as the list of its entries in insertion order:
  \<^verbatim>\<open>m[key] = append(m[key], v)\<close>.
\<close>

fun appendAt :: "string \<Rightarrow> Hunk \<Rightarrow> (string \<times> Hunk list) list \<Rightarrow> (string \<times> Hunk list) list" where
  "appendAt key v [] = [(key, [v])]"
| "appendAt key v ((k, vs) # m) =
     (if k = key then (k, vs @ [v]) # m else (k, vs) # appendAt key v m)"

definition fileHunks :: "Hunk list \<Rightarrow> (string \<times> Hunk list) list" where
  "fileHunks hs = foldl (\<lambda>m hunk. appendAt (FilePath hunk) hunk m) [] hs"

text \<open>One file section of the patch: header, status line, file markers, hunk texts.\<close>

definition patchSection :: "string \<times> Hunk list \<Rightarrow> string" where
  "patchSection fileEntry =
     (case fileEntry of
        (file, hs) \<Rightarrow>
          ''diff --git a/'' @ file @ '' b/'' @ file @ [LF]
          @ (if IsNew (hd hs) then ''new file mode 100644'' @ [LF]
             else if IsDeleted (hd hs) then ''deleted file mode 100644'' @ [LF]
             else if IsRenamed (hd hs)
               then ''rename from '' @ OldFilePath (hd hs) @ [LF] @ ''rename to '' @ file @ [LF]
             else [])
          @ ''--- a/'' @ file @ [LF] @ ''+++ b/'' @ file @ [LF]
          @ concat (map Content hs))"

text \<open>
  \<^verbatim>\<open>createPatchFile\<close>: the text written to the temporary patch file, which stands for
  the file.
\<close>

definition createPatchFile :: "world \<Rightarrow> Hunk list \<Rightarrow> string" where
  "createPatchFile w hs = concat (map patchSection (mapOrder w (fileHunks hs)))"

text \<open>The loop that checks every hunk's file out of HEAD.\<close>

fun resetFiles :: "Hunk list \<Rightarrow> world \<Rightarrow> error option \<times> world" where
  "resetFiles [] w = (None, w)"
| "resetFiles (hunk # rest) w =
     (case run (GitCheckoutHead (FilePath hunk)) w of
        (ok, w') \<Rightarrow>
          if \<not> ok \<and> \<not> IsNew hunk
          then (Some (Err (''failed to reset file '' @ FilePath hunk)), w')
          else resetFiles rest w')"

definition ApplyHunksAsFixup :: "Hunk list \<Rightarrow> string \<Rightarrow> world \<Rightarrow> error option \<times> world" where
  "ApplyHunksAsFixup hs targetSHA w =
     (if length hs = 0 then (Some (Err ''no hunks to apply''), w)
      else
        (let patchFile = createPatchFile w hs in
         case resetFiles hs w of
           (Some e, w1) \<Rightarrow> (Some e, w1)
         | (None, w1) \<Rightarrow>
             (case run (GitApplyIndex patchFile) w1 of
                (ok, w2) \<Rightarrow>
                  if \<not> ok then (Some (Err ''failed to apply patch''), w2)
                  else CreateFixupCommit targetSHA [] w2)))"

text \<open>
  Step 10 of \<^verbatim>\<open>runAbsorb\<close>: the hunks grouped by target commit, and one
  \<^verbatim>\<open>ApplyHunksAsFixup\<close> call per target, in the order the map is visited. The messages
  slice \<^verbatim>\<open>sha[:8]\<close>.
\<close>

definition commitHunks :: "HunkAssignment list \<Rightarrow> (string \<times> Hunk list) list" where
  "commitHunks as = foldl (\<lambda>m a. appendAt (CommitSHA a) (Hunk a) m) [] as"

fun createFixups :: "(string \<times> Hunk list) list \<Rightarrow> world \<Rightarrow> error option \<times> world" where
  "createFixups [] w = (None, w)"
| "createFixups ((sha, hs) # rest) w =
     (case ApplyHunksAsFixup hs sha w of
        (Some Panic, w') \<Rightarrow> (Some Panic, w')
      | (Some (Err m), w') \<Rightarrow>
          if length sha < 8 then (Some Panic, w')
          else (Some (Err (''failed to create fixup commit for '' @ take 8 sha @ '': '' @ m)), w')
      | (None, w') \<Rightarrow>
          if length sha < 8 then (Some Panic, w')
          else createFixups rest (Println (''Created fixup commit for '' @ take 8 sha) w'))"

definition applyAssignments :: "AbsorbResponse \<Rightarrow> world \<Rightarrow> error option \<times> world" where
  "applyAssignments resp w =
     (if length (Assignments resp) > 0
      then createFixups (mapOrder w (commitHunks (Assignments resp))) w
      else (None, w))"

text \<open>The trace entry of the restore of a hunk's file.\<close>

definition restoreEntry :: "world \<Rightarrow> Hunk \<Rightarrow> git_cmd \<times> bool" where
  "restoreEntry w hunk =
     (GitCheckoutHead (FilePath hunk), \<not> fails w (GitCheckoutHead (FilePath hunk)))"

definition isRestore :: "git_cmd \<times> bool \<Rightarrow> bool" where
  "isRestore traceEntry = (case fst traceEntry of GitCheckoutHead f \<Rightarrow> True | _ \<Rightarrow> False)"

subsection \<open>Concrete repositories\<close>

text \<open>
  A repository with an undo record whose stash cannot be reapplied: branch
  \<^verbatim>\<open>feature\<close> is checked out, the record names branch \<^verbatim>\<open>main\<close>, the backup reference
  \<^verbatim>\<open>refs/cmt-backup/absorb-17\<close> (at commit \<^verbatim>\<open>c5\<close>) and a stash.
\<close>

definition state_stash :: AbsorbState where
  "state_stash = state_ok\<lparr>StashSHA := ''5ta5h''\<rparr>"

definition world_undo :: world where
  "world_undo = world0\<lparr>
     files := [stateFilePath ''/repo'' \<mapsto> bodyText (stateLines state_stash)],
     branch := ''feature'',
     heads := [''main'' \<mapsto> ''c9'', ''feature'' \<mapsto> ''c2''],
     refs := [(''refs/cmt-backup/absorb-17'', ''c5'')],
     stashes := [''5ta5h''],
     fails := (\<lambda>c. c = GitStashPop)\<rparr>"



text \<open>
  Two assignments, \<open>hunk_a\<close> to "fix a" and \<open>hunk_b\<close> to "add b", and a repository where
  the patch for \<^verbatim>\<open>a.txt\<close> does not apply.
\<close>

definition resp_two :: AbsorbResponse where
  "resp_two = \<lparr>Assignments =
       [\<lparr>Hunk = hunk_a, CommitSHA = ''1111111111aaaaaaaaaa'', CommitMessage = ''fix a'',
         Confidence = 0.9, Reasoning = ''why'', Alternatives = []\<rparr>,
        \<lparr>Hunk = hunk_b, CommitSHA = ''2222222222bbbbbbbbbb'', CommitMessage = ''add b'',
         Confidence = 0.95, Reasoning = ''why'', Alternatives = []\<rparr>],
     UnmatchedHunks = []\<rparr>"

definition world_apply :: world where
  "world_apply = world0\<lparr>fails := (\<lambda>c. c = GitApplyIndex (patchSection (''a.txt'', [hunk_a])))\<rparr>"

text \<open>Repositories where the restore of \<^verbatim>\<open>b.txt\<close>, or of \<^verbatim>\<open>a.txt\<close>, fails.\<close>

definition world_new_file :: world where
  "world_new_file = world0\<lparr>fails := (\<lambda>c. c = GitCheckoutHead ''b.txt'')\<rparr>"

definition world_old_file :: world where
  "world_old_file = world0\<lparr>fails := (\<lambda>c. c = GitCheckoutHead ''a.txt'')\<rparr>"

section \<open>Review state\<close>

text \<open>
  \<^verbatim>\<open>AbsorbReviewModel\<close> of \<^verbatim>\<open>internal/ui/absorb.go\<close>. \<^verbatim>\<open>NewAbsorbReviewModel\<close> stores the
  slice \<^verbatim>\<open>resp.Assignments\<close> itself, so the model and the response share one backing
  array: \<open>m_array\<close> is that array (as long as the response's slice), and the model's slice
  \<^verbatim>\<open>m.assignments\<close> is its first \<open>m_len\<close> elements. The map \<^verbatim>\<open>modifications\<close> is the list
  of its entries. The viewport and the text area are not modelled, except that rendering
  slices \<^verbatim>\<open>CommitSHA[:8]\<close> and panics on a shorter SHA. A key message is the string
  \<^verbatim>\<open>msg.String()\<close>.
\<close>

record AbsorbReviewModel =
  m_array :: "HunkAssignment list"
  m_len :: nat
  unmatched :: "Hunk list"
  currentIndex :: nat
  selectedAlt :: nat
  accepted :: bool
  cancelled :: bool
  mode :: string
  modifications :: "(nat \<times> string) list"

definition assignments :: "AbsorbReviewModel \<Rightarrow> HunkAssignment list" where
  "assignments m = take (m_len m) (m_array m)"

definition NewAbsorbReviewModel :: "AbsorbResponse \<Rightarrow> AbsorbReviewModel" where
  "NewAbsorbReviewModel resp =
     \<lparr>m_array = Assignments resp, m_len = length (Assignments resp),
      unmatched = UnmatchedHunks resp, currentIndex = 0, selectedAlt = 0,
      accepted = False, cancelled = False, mode = ''review'', modifications = []\<rparr>"

text \<open>The key bindings \<^verbatim>\<open>absorbKeys\<close>.\<close>

definition keysAccept :: "string list" where "keysAccept = [''y'', ''enter'']"

definition keysCancel :: "string list" where "keysCancel = [''n'', ''q'']"

definition keysAlternatives :: "string list" where "keysAlternatives = [''a'']"

definition keysUnassign :: "string list" where "keysUnassign = [''u'']"

definition keysNextHunk :: "string list" where "keysNextHunk = [''tab'', ''right'', ''l'']"

definition keysPrevHunk :: "string list" where "keysPrevHunk = [''shift+tab'', ''left'', ''h'']"

definition keysUp :: "string list" where "keysUp = [''up'', ''k'']"

definition keysDown :: "string list" where "keysDown = [''down'', ''j'']"

definition Matches :: "string \<Rightarrow> string list \<Rightarrow> bool" where
  "Matches msg binding \<longleftrightarrow> msg \<in> set binding"

text \<open>\<^verbatim>\<open>SetContent(m.renderContent())\<close> and \<^verbatim>\<open>SetContent(m.renderAlternatives())\<close>.\<close>

definition renderContent :: "AbsorbReviewModel \<Rightarrow> error + AbsorbReviewModel" where
  "renderContent m =
     (if m_len m = 0 then Inr m
      else if currentIndex m \<ge> m_len m then Inr m
      else if length (CommitSHA (assignments m ! currentIndex m)) < 8 then Inl Panic
      else Inr m)"

definition renderAlternatives :: "AbsorbReviewModel \<Rightarrow> error + AbsorbReviewModel" where
  "renderAlternatives m =
     (if currentIndex m \<ge> m_len m then Inr m
      else if length (CommitSHA (assignments m ! currentIndex m)) < 8 then Inl Panic
      else if list_ex (\<lambda>alt. length (alt_CommitSHA alt) < 8)
                (Alternatives (assignments m ! currentIndex m)) then Inl Panic
      else Inr m)"

text \<open>
  \<^verbatim>\<open>append(a[:i], a[i+1:]...)\<close> on a slice of length \<open>n\<close> over the array: the elements
  after position \<open>i\<close> move one place down inside the array, whose last used cell keeps
  its old value.
\<close>

definition removeInPlace :: "nat \<Rightarrow> nat \<Rightarrow> 'a list \<Rightarrow> 'a list" where
  "removeInPlace i n arr = take i arr @ drop (Suc i) (take n arr) @ drop (n - 1) arr"

text \<open>The case \<^verbatim>\<open>absorbKeys.Unassign\<close> of \<^verbatim>\<open>Update\<close>.\<close>

definition unassign :: "AbsorbReviewModel \<Rightarrow> error + AbsorbReviewModel" where
  "unassign m =
     (if currentIndex m < m_len m then
        (let assignment = assignments m ! currentIndex m;
             m1 = m\<lparr>unmatched := unmatched m @ [Hunk assignment],
                    m_array := removeInPlace (currentIndex m) (m_len m) (m_array m),
                    m_len := m_len m - 1\<rparr>;
             m2 = (if currentIndex m1 \<ge> m_len m1 \<and> currentIndex m1 > 0
                   then m1\<lparr>currentIndex := currentIndex m1 - 1\<rparr> else m1)
         in renderContent m2)
      else Inr m)"

text \<open>The case \<^verbatim>\<open>"enter"\<close> of the alternatives mode.\<close>

definition applyAlternative :: "AbsorbReviewModel \<Rightarrow> error + AbsorbReviewModel" where
  "applyAlternative m =
     (if selectedAlt m > 0 \<and> currentIndex m \<ge> m_len m then Inl Panic
      else
        (let m1 =
           (if selectedAlt m > 0
               \<and> selectedAlt m \<le> length (Alternatives (assignments m ! currentIndex m))
            then
              (let alt = Alternatives (assignments m ! currentIndex m) ! (selectedAlt m - 1);
                   a = m_array m ! currentIndex m
               in m\<lparr>m_array := (m_array m)[currentIndex m :=
                         a\<lparr>CommitSHA := alt_CommitSHA alt,
                           CommitMessage := alt_CommitMessage alt,
                           Confidence := alt_Confidence alt,
                           Reasoning := alt_Reasoning alt\<rparr>],
                     modifications := (currentIndex m, alt_CommitSHA alt)
                        # filter (\<lambda>p. fst p \<noteq> currentIndex m) (modifications m)\<rparr>)
            else m)
         in renderContent (m1\<lparr>mode := ''review''\<rparr>)))"

text \<open>\<^verbatim>\<open>Update\<close> on a key message.\<close>

definition Update :: "string \<Rightarrow> AbsorbReviewModel \<Rightarrow> error + AbsorbReviewModel" where
  "Update msg m =
     (if mode m = ''review'' then
        (if Matches msg keysAccept then Inr (m\<lparr>accepted := True\<rparr>)
         else if Matches msg keysCancel then Inr (m\<lparr>cancelled := True\<rparr>)
         else if Matches msg keysNextHunk then
           (if currentIndex m + 1 < m_len m
            then renderContent (m\<lparr>currentIndex := currentIndex m + 1\<rparr>) else Inr m)
         else if Matches msg keysPrevHunk then
           (if currentIndex m > 0
            then renderContent (m\<lparr>currentIndex := currentIndex m - 1\<rparr>) else Inr m)
         else if Matches msg keysAlternatives then
           (if currentIndex m < m_len m
               \<and> length (Alternatives (assignments m ! currentIndex m)) > 0
            then renderAlternatives (m\<lparr>mode := ''alternatives'', selectedAlt := 0\<rparr>)
            else Inr m)
         else if Matches msg keysUnassign then unassign m
         else if Matches msg keysUp then Inr m
         else if Matches msg keysDown then Inr m
         else if msg = ''ctrl+c'' then Inr (m\<lparr>cancelled := True\<rparr>)
         else Inr m)
      else if mode m = ''alternatives'' then
        (if msg = ''up'' \<or> msg = ''k'' then
           (if selectedAlt m > 0
            then renderAlternatives (m\<lparr>selectedAlt := selectedAlt m - 1\<rparr>) else Inr m)
         else if msg = ''down'' \<or> msg = ''j'' then
           (if currentIndex m \<ge> m_len m then Inl Panic
            else if selectedAlt m < length (Alternatives (assignments m ! currentIndex m))
            then renderAlternatives (m\<lparr>selectedAlt := selectedAlt m + 1\<rparr>) else Inr m)
         else if msg = ''enter'' then applyAlternative m
         else if msg = ''q'' \<or> msg = ''esc'' then renderContent (m\<lparr>mode := ''review''\<rparr>)
         else Inr m)
      else Inr m)"

text \<open>
  \<^verbatim>\<open>GetResult\<close>: the modified response is built only when \<^verbatim>\<open>modifications\<close> is not
  empty; otherwise the second result is nil.
\<close>

definition GetResult :: "AbsorbReviewModel \<Rightarrow> bool \<times> AbsorbResponse option" where
  "GetResult m =
     (if cancelled m then (False, None)
      else if \<not> accepted m then (False, None)
      else if length (modifications m) > 0
        then (True, Some \<lparr>Assignments = assignments m, UnmatchedHunks = unmatched m\<rparr>)
      else (True, None))"

text \<open>
  The program loop of \<^verbatim>\<open>ShowAbsorbReview\<close> on the keys the reviewer presses: accept and
  cancel quit the program.
\<close>

fun runKeys :: "string list \<Rightarrow> AbsorbReviewModel \<Rightarrow> error + AbsorbReviewModel" where
  "runKeys [] m = Inr m"
| "runKeys (k # ks) m =
     (case Update k m of
        Inl e \<Rightarrow> Inl e
      | Inr m' \<Rightarrow> if accepted m' \<or> cancelled m' then Inr m' else runKeys ks m')"

text \<open>
  Step 8 of \<^verbatim>\<open>runAbsorb\<close>: the response the command goes on with after an accepted review.
  With a nil result the variable \<^verbatim>\<open>absorbResp\<close> is kept: its slices have their old
  lengths, and its assignments are read from the shared array as the review left it.
\<close>

definition reviewedResponse :: "AbsorbResponse \<Rightarrow> string list \<Rightarrow> error + (bool \<times> AbsorbResponse)" where
  "reviewedResponse resp ks =
     (case runKeys ks (NewAbsorbReviewModel resp) of
        Inl e \<Rightarrow> Inl e
      | Inr m \<Rightarrow>
          (case GetResult m of
             (acc, Some modified) \<Rightarrow> Inr (acc, modified)
           | (acc, None) \<Rightarrow>
               Inr (acc, \<lparr>Assignments = m_array m, UnmatchedHunks = UnmatchedHunks resp\<rparr>)))"

text \<open>The second assignment of \<open>resp_two\<close>.\<close>

definition assign_b :: HunkAssignment where
  "assign_b = \<lparr>Hunk = hunk_b, CommitSHA = ''2222222222bbbbbbbbbb'', CommitMessage = ''add b'',
     Confidence = 0.95, Reasoning = ''why'', Alternatives = []\<rparr>"

section \<open>Proofs: oracle client\<close>

lemmas example_defs = hunk_a_def hunk_b_def commit_1_def commit_2_def entry_def
  request_bm_def request_ia_def

lemma processAlternatives_conf:
  "processAlternatives cs alts acc = Inr r \<Longrightarrow>
     map alt_Confidence r = map alt_Confidence acc @ map ja_Confidence alts"
  by (induction alts arbitrary: acc) (auto split: sum.splits prod.splits)

lemma processAssignments_shape:
  "processAssignments req as (resp, S) = Inr (resp', S') \<Longrightarrow>
     S' = S \<union> HunkIndex ` {a \<in> set as. inRange req (HunkIndex a)} \<and>
     UnmatchedHunks resp' = UnmatchedHunks resp @
        map (\<lambda>a. hunkAt req (HunkIndex a))
            (filter (\<lambda>a. inRange req (HunkIndex a) \<and> demoted req a) as) \<and>
     (\<exists>new. Assignments resp' = Assignments resp @ new \<and>
        list_all2 (built_from req) new
            (filter (\<lambda>a. inRange req (HunkIndex a) \<and> \<not> demoted req a) as))"
proof (induction as arbitrary: resp S)
  case Nil
  then show ?case by simp
next
  case (Cons a as)
  show ?case
  proof (cases "inRange req (HunkIndex a)")
    case False
    with Cons.prems have "processAssignments req as (resp, S) = Inr (resp', S')"
      by (auto simp: inRange_def)
    from Cons.IH[OF this] False show ?thesis by auto
  next
    case True
    then obtain sha msg alts where
      rc: "resolveCommit (Commits req) (j_CommitSHA a) = Inr (sha, msg)" and
      pa: "processAlternatives (Commits req) (j_Alternatives a) [] = Inr alts"
      using Cons.prems by (auto simp: inRange_def split: sum.splits prod.splits)
    define x where "x = \<lparr>Hunk = hunkAt req (HunkIndex a), CommitSHA = sha,
                          CommitMessage = msg, Confidence = j_Confidence a,
                          Reasoning = j_Reasoning a, Alternatives = alts\<rparr>"
    have bx: "built_from req x a"
      using processAlternatives_conf[OF pa] by (simp add: built_from_def x_def)
    show ?thesis
    proof (cases "demoted req a")
      case d: True
      with True rc pa Cons.prems have
        "processAssignments req as (resp\<lparr>UnmatchedHunks := UnmatchedHunks resp @ [hunkAt req (HunkIndex a)]\<rparr>,
            insert (HunkIndex a) S) = Inr (resp', S')"
        by (simp add: inRange_def demoted_def hunkAt_def Let_def)
      from Cons.IH[OF this] True d show ?thesis by auto
    next
      case d: False
      with True rc pa Cons.prems have
        "processAssignments req as (resp\<lparr>Assignments := Assignments resp @ [x]\<rparr>,
            insert (HunkIndex a) S) = Inr (resp', S')"
        by (auto simp add: inRange_def demoted_def hunkAt_def Let_def x_def)
      from Cons.IH[OF this] obtain new where
        n: "Assignments resp' = (Assignments resp @ [x]) @ new"
           "list_all2 (built_from req) new
            (filter (\<lambda>a. inRange req (HunkIndex a) \<and> \<not> demoted req a) as)"
        and r: "S' = insert (HunkIndex a) S \<union> HunkIndex ` {a \<in> set as. inRange req (HunkIndex a)}"
           "UnmatchedHunks resp' = UnmatchedHunks resp @
        map (\<lambda>a. hunkAt req (HunkIndex a))
            (filter (\<lambda>a. inRange req (HunkIndex a) \<and> demoted req a) as)"
        by auto
      have "Assignments resp' = Assignments resp @ (x # new)" using n by simp
      moreover have "list_all2 (built_from req) (x # new)
            (filter (\<lambda>a. inRange req (HunkIndex a) \<and> \<not> demoted req a) (a # as))"
        using n bx True d by simp
      ultimately have ex: "\<exists>new. Assignments resp' = Assignments resp @ new \<and>
        list_all2 (built_from req) new
            (filter (\<lambda>a. inRange req (HunkIndex a) \<and> \<not> demoted req a) (a # as))"
        by blast
      have s: "S' = S \<union> HunkIndex ` {aa \<in> set (a # as). inRange req (HunkIndex aa)}"
        using r(1) True by auto
      have u: "UnmatchedHunks resp' = UnmatchedHunks resp @
        map (\<lambda>a. hunkAt req (HunkIndex a))
            (filter (\<lambda>a. inRange req (HunkIndex a) \<and> demoted req a) (a # as))"
        using r(2) d by simp
      show ?thesis using ex s u by (intro conjI)
    qed
  qed
qed

lemma processUnmatched_shape:
  "Assignments (processUnmatched req S um resp) = Assignments resp \<and>
   UnmatchedHunks (processUnmatched req S um resp) = UnmatchedHunks resp @
     map (hunkAt req) (filter (\<lambda>i. inRange req i \<and> i \<notin> S) um)"
  by (induction um arbitrary: resp) (auto simp: inRange_def hunkAt_def)

lemma processUnmentioned_shape:
  "Assignments (processUnmentioned S um ihs resp) = Assignments resp \<and>
   UnmatchedHunks (processUnmentioned S um ihs resp) = UnmatchedHunks resp @
     map snd (filter (\<lambda>p. int (fst p) \<notin> S \<and> int (fst p) \<notin> set um) ihs)"
  by (induction ihs arbitrary: resp) auto

lemma built_from_maps:
  "list_all2 (built_from req) xs as \<Longrightarrow>
     map Hunk xs = map (\<lambda>a. hunkAt req (HunkIndex a)) as \<and>
     map Confidence xs = map j_Confidence as"
  by (induction rule: list_all2_induct) (auto simp: built_from_def)

lemma parseAbsorbResponse_shape:
  assumes "parseAbsorbResponse jsonResp req = Inr resp"
  shows "list_all2 (built_from req) (Assignments resp) (keptEntries req jsonResp)"
    and "UnmatchedHunks resp =
           map (\<lambda>a. hunkAt req (HunkIndex a)) (demotedEntries req jsonResp) @
           map (hunkAt req)
             (filter (\<lambda>i. inRange req i \<and> i \<notin> assignedIdx req jsonResp) (j_UnmatchedHunks jsonResp)) @
           map snd (filter (\<lambda>p. int (fst p) \<notin> assignedIdx req jsonResp
                                \<and> int (fst p) \<notin> set (j_UnmatchedHunks jsonResp))
                      (zip [0 ..< length (Hunks req)] (Hunks req)))"
proof -
  from assms obtain r1 S where
    pa: "processAssignments req (j_Assignments jsonResp)
           (\<lparr>Assignments = [], UnmatchedHunks = []\<rparr>, {}) = Inr (r1, S)"
    and r: "resp = processUnmentioned S (j_UnmatchedHunks jsonResp)
                 (zip [0 ..< length (Hunks req)] (Hunks req))
                 (processUnmatched req S (j_UnmatchedHunks jsonResp) r1)"
    by (auto simp: parseAbsorbResponse_def split: sum.splits prod.splits)
  from processAssignments_shape[OF pa] have
    S: "S = assignedIdx req jsonResp"
    and u1: "UnmatchedHunks r1 = map (\<lambda>a. hunkAt req (HunkIndex a)) (demotedEntries req jsonResp)"
    and a1: "list_all2 (built_from req) (Assignments r1) (keptEntries req jsonResp)"
    by (auto simp: assignedIdx_def demotedEntries_def keptEntries_def)
  show "list_all2 (built_from req) (Assignments resp) (keptEntries req jsonResp)"
    using a1 by (simp add: r processUnmentioned_shape processUnmatched_shape)
  show "UnmatchedHunks resp =
           map (\<lambda>a. hunkAt req (HunkIndex a)) (demotedEntries req jsonResp) @
           map (hunkAt req)
             (filter (\<lambda>i. inRange req i \<and> i \<notin> assignedIdx req jsonResp) (j_UnmatchedHunks jsonResp)) @
           map snd (filter (\<lambda>p. int (fst p) \<notin> assignedIdx req jsonResp
                                \<and> int (fst p) \<notin> set (j_UnmatchedHunks jsonResp))
                      (zip [0 ..< length (Hunks req)] (Hunks req)))"
    using u1 S by (simp add: r processUnmentioned_shape processUnmatched_shape)
qed

lemma zip_upt_member:
  "(i, h) \<in> set (zip [0 ..< length hs] hs) \<longleftrightarrow> i < length hs \<and> h = hs ! i"
proof
  assume "(i, h) \<in> set (zip [0 ..< length hs] hs)"
  then show "i < length hs \<and> h = hs ! i" by (auto simp: in_set_zip)
next
  assume a: "i < length hs \<and> h = hs ! i"
  then have "[0 ..< length hs] ! i = i \<and> hs ! i = h \<and> i < length hs" by simp
  then show "(i, h) \<in> set (zip [0 ..< length hs] hs)"
    unfolding in_set_zip by (auto intro!: exI[of _ i])
qed

lemma assigned_hunks_set:
  assumes "parseAbsorbResponse jsonResp req = Inr resp"
  shows "Hunk ` set (Assignments resp) =
           (\<lambda>a. hunkAt req (HunkIndex a)) ` set (keptEntries req jsonResp)"
proof -
  have "set (map Hunk (Assignments resp)) =
          set (map (\<lambda>a. hunkAt req (HunkIndex a)) (keptEntries req jsonResp))"
    using built_from_maps[OF parseAbsorbResponse_shape(1)[OF assms]] by simp
  then show ?thesis by simp
qed

lemma unmatched_hunks_set:
  assumes "parseAbsorbResponse jsonResp req = Inr resp"
  shows "set (UnmatchedHunks resp) =
           (\<lambda>a. hunkAt req (HunkIndex a)) ` set (demotedEntries req jsonResp) \<union>
           {Hunks req ! i | i. i < length (Hunks req) \<and> int i \<notin> assignedIdx req jsonResp}"
    (is "?L = ?D \<union> ?R")
proof -
  let ?um = "j_UnmatchedHunks jsonResp"
  let ?S = "assignedIdx req jsonResp"
  have A: "hunkAt req ` {i \<in> set ?um. inRange req i \<and> i \<notin> ?S}
      = {Hunks req ! i | i. i < length (Hunks req) \<and> int i \<notin> ?S \<and> int i \<in> set ?um}"
  proof (intro set_eqI iffI)
    fix h assume "h \<in> hunkAt req ` {i \<in> set ?um. inRange req i \<and> i \<notin> ?S}"
    then obtain j where j: "j \<in> set ?um" "inRange req j" "j \<notin> ?S" "h = hunkAt req j" by auto
    then have "nat j < length (Hunks req)" "int (nat j) = j" by (auto simp: inRange_def)
    with j show "h \<in> {Hunks req ! i | i. i < length (Hunks req) \<and> int i \<notin> ?S \<and> int i \<in> set ?um}"
      by (auto simp: hunkAt_def intro!: exI[of _ "nat j"])
  next
    fix h assume "h \<in> {Hunks req ! i | i. i < length (Hunks req) \<and> int i \<notin> ?S \<and> int i \<in> set ?um}"
    then obtain i where "i < length (Hunks req)" "int i \<notin> ?S" "int i \<in> set ?um" "h = Hunks req ! i"
      by auto
    then show "h \<in> hunkAt req ` {i \<in> set ?um. inRange req i \<and> i \<notin> ?S}"
      by (auto simp: hunkAt_def inRange_def intro!: image_eqI[of _ _ "int i"])
  qed
  have B: "snd ` {p \<in> set (zip [0 ..< length (Hunks req)] (Hunks req)).
                    int (fst p) \<notin> ?S \<and> int (fst p) \<notin> set ?um}
      = {Hunks req ! i | i. i < length (Hunks req) \<and> int i \<notin> ?S \<and> int i \<notin> set ?um}"
    by (auto simp: zip_upt_member image_iff)
  have "?L = ?D \<union> hunkAt req ` {i \<in> set ?um. inRange req i \<and> i \<notin> ?S} \<union>
        snd ` {p \<in> set (zip [0 ..< length (Hunks req)] (Hunks req)).
                    int (fst p) \<notin> ?S \<and> int (fst p) \<notin> set ?um}"
    by (simp add: parseAbsorbResponse_shape(2)[OF assms] Un_assoc)
  also have "\<dots> = ?D \<union> ?R" unfolding A B by blast
  finally show ?thesis .
qed

lemma hunkAt_eq_iff:
  assumes "distinct (Hunks req)" "inRange req j" "i < length (Hunks req)"
  shows "hunkAt req j = Hunks req ! i \<longleftrightarrow> j = int i"
proof -
  have "nat j < length (Hunks req)" "int (nat j) = j" using assms(2) by (auto simp: inRange_def)
  then show ?thesis
    using assms(1,3) by (auto simp: hunkAt_def nth_eq_iff_index_eq)
qed

lemma in_assignments_iff:
  assumes "parseAbsorbResponse jsonResp req = Inr resp" "distinct (Hunks req)"
    "i < length (Hunks req)"
  shows "Hunks req ! i \<in> Hunk ` set (Assignments resp) \<longleftrightarrow>
         (\<exists>a \<in> set (j_Assignments jsonResp). HunkIndex a = int i \<and> \<not> demoted req a)"
proof -
  have "Hunks req ! i \<in> Hunk ` set (Assignments resp) \<longleftrightarrow>
        (\<exists>a \<in> set (keptEntries req jsonResp). hunkAt req (HunkIndex a) = Hunks req ! i)"
    unfolding assigned_hunks_set[OF assms(1)] image_iff by metis
  also have "\<dots> \<longleftrightarrow> (\<exists>a \<in> set (keptEntries req jsonResp). HunkIndex a = int i)"
    using hunkAt_eq_iff[OF assms(2) _ assms(3)] by (auto simp: keptEntries_def)
  also have "\<dots> \<longleftrightarrow> (\<exists>a \<in> set (j_Assignments jsonResp). HunkIndex a = int i \<and> \<not> demoted req a)"
    using assms(3) by (auto simp: keptEntries_def inRange_def)
  finally show ?thesis .
qed

lemma in_unmatched_iff:
  assumes "parseAbsorbResponse jsonResp req = Inr resp" "distinct (Hunks req)"
    "i < length (Hunks req)"
  shows "Hunks req ! i \<in> set (UnmatchedHunks resp) \<longleftrightarrow>
         (\<exists>a \<in> set (j_Assignments jsonResp). HunkIndex a = int i \<and> demoted req a) \<or>
         (\<forall>a \<in> set (j_Assignments jsonResp). HunkIndex a \<noteq> int i)"
proof -
  have ir: "inRange req (int i)" using assms(3) by (simp add: inRange_def)
  have 1: "(\<exists>a \<in> set (demotedEntries req jsonResp). hunkAt req (HunkIndex a) = Hunks req ! i)
      \<longleftrightarrow> (\<exists>a \<in> set (j_Assignments jsonResp). HunkIndex a = int i \<and> demoted req a)"
    using hunkAt_eq_iff[OF assms(2) _ assms(3)] ir by (auto simp: demotedEntries_def)
  have 2: "(\<exists>k. Hunks req ! i = Hunks req ! k \<and> k < length (Hunks req) \<and> int k \<notin> assignedIdx req jsonResp)
      \<longleftrightarrow> int i \<notin> assignedIdx req jsonResp"
    using assms(2,3) by (auto simp: nth_eq_iff_index_eq)
  have 3: "int i \<notin> assignedIdx req jsonResp \<longleftrightarrow>
      (\<forall>a \<in> set (j_Assignments jsonResp). HunkIndex a \<noteq> int i)"
    unfolding assignedIdx_def image_iff using ir by (metis (mono_tags, lifting) mem_Collect_eq)
  have "Hunks req ! i \<in> set (UnmatchedHunks resp) \<longleftrightarrow>
      (\<exists>a \<in> set (demotedEntries req jsonResp). hunkAt req (HunkIndex a) = Hunks req ! i) \<or>
      (\<exists>k. Hunks req ! i = Hunks req ! k \<and> k < length (Hunks req) \<and> int k \<notin> assignedIdx req jsonResp)"
    unfolding unmatched_hunks_set[OF assms(1)] Un_iff image_iff mem_Collect_eq by metis
  then show ?thesis unfolding 1 2 3 .
qed

text \<open>
  Without a commit the document's SHA is kept; with commits, a SHA of at least 8 bytes
  never panics. So post-processing returns a response whenever every SHA the loops look
  at has 8 bytes or more.
\<close>

lemma resolveCommit_returns:
  "cs = [] \<or> 8 \<le> length sha \<Longrightarrow> \<exists>r. resolveCommit cs sha = Inr r"
  by (induction cs) auto

lemma processAlternatives_returns:
  "\<forall>alt \<in> set alts. 8 \<le> length (ja_CommitSHA alt) \<Longrightarrow>
     \<exists>r. processAlternatives cs alts acc = Inr r"
proof (induction alts arbitrary: acc)
  case Nil
  then show ?case by simp
next
  case (Cons alt alts)
  then obtain r where "resolveCommit cs (ja_CommitSHA alt) = Inr r"
    using resolveCommit_returns[of cs "ja_CommitSHA alt"] by auto
  with Cons show ?case by (cases r) auto
qed

lemma processAssignments_returns:
  "\<forall>a \<in> set as. 8 \<le> length (j_CommitSHA a)
       \<and> (\<forall>alt \<in> set (j_Alternatives a). 8 \<le> length (ja_CommitSHA alt)) \<Longrightarrow>
     \<exists>r. processAssignments req as (resp, S) = Inr r"
proof (induction as arbitrary: resp S)
  case Nil
  then show ?case by simp
next
  case (Cons a as)
  obtain r where r: "resolveCommit (Commits req) (j_CommitSHA a) = Inr r"
    using resolveCommit_returns[of "Commits req" "j_CommitSHA a"] Cons.prems by auto
  obtain alts where alts: "processAlternatives (Commits req) (j_Alternatives a) [] = Inr alts"
    using processAlternatives_returns[of "j_Alternatives a" "Commits req" "[]"] Cons.prems by auto
  have rest: "\<exists>r. processAssignments req as (resp', S') = Inr r" for resp' S'
    using Cons.IH Cons.prems by simp
  show ?case
    using r alts rest by (cases r) (simp add: Let_def)
qed

lemma parseAbsorbResponse_returns:
  assumes "\<forall>a \<in> set (j_Assignments jsonResp). 8 \<le> length (j_CommitSHA a)
       \<and> (\<forall>alt \<in> set (j_Alternatives a). 8 \<le> length (ja_CommitSHA alt))"
  shows "\<exists>resp. parseAbsorbResponse jsonResp req = Inr resp"
proof -
  obtain r where "processAssignments req (j_Assignments jsonResp)
             (\<lparr>Assignments = [], UnmatchedHunks = []\<rparr>, {}) = Inr r"
    using processAssignments_returns[OF assms] by blast
  then show ?thesis by (cases r) (simp add: parseAbsorbResponse_def)
qed

lemma parseAbsorbResponse_short_sha_panics:
  "parseAbsorbResponse
     \<lparr>j_Assignments = [entry 0 ''1111'' 0.9 []], j_UnmatchedHunks = []\<rparr> request_bm = Inl Panic"
  by (simp add: parseAbsorbResponse_def example_defs)

text \<open>
  \<^bold>\<open>C1\<close> (partition invariant), as amended. The response stores hunks by value, so the
  submitted hunks are taken pairwise distinct. Whenever post-processing returns a response,
  and either the strategy is not "best-match" or no index of a submitted hunk is named by
  more than one of the document's assignment entries, every submitted hunk is in the
  assignments list or in the unmatched list, and not in both.
\<close>

theorem partition_invariant:
  assumes "parseAbsorbResponse jsonResp req = Inr resp"
    and "distinct (Hunks req)"
    and "Strategy req \<noteq> ''best-match'' \<or>
         distinct (filter (inRange req) (map HunkIndex (j_Assignments jsonResp)))"
    and "i < length (Hunks req)"
  shows "(Hunks req ! i \<in> Hunk ` set (Assignments resp) \<or>
          Hunks req ! i \<in> set (UnmatchedHunks resp)) \<and>
       \<not> (Hunks req ! i \<in> Hunk ` set (Assignments resp) \<and>
          Hunks req ! i \<in> set (UnmatchedHunks resp))"
proof -
  note A = in_assignments_iff[OF assms(1,2,4)]
  note B = in_unmatched_iff[OF assms(1,2,4)]
  have either: "Hunks req ! i \<in> Hunk ` set (Assignments resp) \<or>
          Hunks req ! i \<in> set (UnmatchedHunks resp)"
    unfolding A B by blast
  have notboth: False
    if k: "a \<in> set (j_Assignments jsonResp)" "HunkIndex a = int i" "\<not> demoted req a"
    and d: "b \<in> set (j_Assignments jsonResp)" "HunkIndex b = int i" "demoted req b"
    for a b
  proof -
    from d(3) have bm: "Strategy req = ''best-match''" by (simp add: demoted_def)
    with assms(3) have
      "distinct (map HunkIndex (filter (\<lambda>a. inRange req (HunkIndex a)) (j_Assignments jsonResp)))"
      by (simp add: filter_map comp_def)
    then have inj: "inj_on HunkIndex
        (set (filter (\<lambda>a. inRange req (HunkIndex a)) (j_Assignments jsonResp)))"
      by (simp add: distinct_map)
    have ir: "inRange req (int i)" using assms(4) by (simp add: inRange_def)
    have "a = b" using inj k d ir by (auto dest!: inj_onD[where x = a and y = b])
    with k(3) d(3) show False by simp
  qed
  have "\<not> (Hunks req ! i \<in> Hunk ` set (Assignments resp) \<and>
          Hunks req ! i \<in> set (UnmatchedHunks resp))"
    unfolding A B using notboth by blast
  with either show ?thesis by simp
qed

theorem partition_invariant_witness:
  "parseAbsorbResponse doc_plain request_bm = Inr resp_plain
   \<and> distinct (Hunks request_bm)
   \<and> distinct (filter (inRange request_bm) (map HunkIndex (j_Assignments doc_plain)))
   \<and> (1::nat) < length (Hunks request_bm)
   \<and> Hunks request_bm ! 1 \<notin> Hunk ` set (Assignments resp_plain)
   \<and> Hunks request_bm ! 1 \<in> set (UnmatchedHunks resp_plain)"
proof -
  have p: "parseAbsorbResponse doc_plain request_bm = Inr resp_plain"
    by (simp add: parseAbsorbResponse_def doc_plain_def resp_plain_def example_defs firstLine_def)
  have d: "distinct (Hunks request_bm)" by (simp add: example_defs)
  have i: "distinct (filter (inRange request_bm) (map HunkIndex (j_Assignments doc_plain)))"
    by (simp add: doc_plain_def example_defs inRange_def)
  have l: "(1::nat) < length (Hunks request_bm)" by (simp add: example_defs)
  have u: "Hunks request_bm ! 1 \<in> set (UnmatchedHunks resp_plain)"
    by (simp add: resp_plain_def example_defs)
  from partition_invariant[OF p d disjI2[OF i] l] u p d i l show ?thesis by blast
qed

text \<open>
  \<^bold>\<open>C1\<close> as stated fails: under "best-match" with threshold 0.7, a document that names
  hunk 0 twice, with confidence 0.9 and with confidence 0.5, puts \<open>hunk_a\<close> both in the
  assignments and in the unmatched list.
\<close>

theorem partition_counterexample:
  "parseAbsorbResponse doc_twice request_bm = Inr resp_twice
   \<and> map Hunk (Assignments resp_twice) = [hunk_a]
   \<and> UnmatchedHunks resp_twice = [hunk_a, hunk_b]"
  by (simp add: parseAbsorbResponse_def doc_twice_def resp_twice_def example_defs firstLine_def)

text \<open>
  \<^bold>\<open>C3\<close> (best-match demotion), as amended. Under "best-match", every assignment entry
  of the document that names a submitted hunk with a confidence below the threshold has
  its hunk in the unmatched list, and no assignment of the response has a confidence
  below the threshold. The hunk is absent from the assignments list when the hunks are
  pairwise distinct and every entry naming the same hunk index is below the threshold.
\<close>

theorem best_match_demotion:
  assumes "parseAbsorbResponse jsonResp req = Inr resp"
    and "Strategy req = ''best-match''"
    and "a \<in> set (j_Assignments jsonResp)"
    and "inRange req (HunkIndex a)"
    and "j_Confidence a < ConfidenceThreshold req"
  shows "hunkAt req (HunkIndex a) \<in> set (UnmatchedHunks resp) \<and>
         (\<forall>x \<in> set (Assignments resp). ConfidenceThreshold req \<le> Confidence x) \<and>
         (distinct (Hunks req) \<and>
          (\<forall>b \<in> set (j_Assignments jsonResp).
              HunkIndex b = HunkIndex a \<longrightarrow> j_Confidence b < ConfidenceThreshold req)
          \<longrightarrow> hunkAt req (HunkIndex a) \<notin> Hunk ` set (Assignments resp))"
proof (intro conjI impI)
  have "a \<in> set (demotedEntries req jsonResp)"
    using assms(2-5) by (simp add: demotedEntries_def demoted_def)
  then show "hunkAt req (HunkIndex a) \<in> set (UnmatchedHunks resp)"
    unfolding unmatched_hunks_set[OF assms(1)] by blast
next
  have "set (map Confidence (Assignments resp)) = set (map j_Confidence (keptEntries req jsonResp))"
    using built_from_maps[OF parseAbsorbResponse_shape(1)[OF assms(1)]] by simp
  then have "Confidence ` set (Assignments resp) = j_Confidence ` set (keptEntries req jsonResp)"
    by simp
  moreover have "\<forall>b \<in> set (keptEntries req jsonResp). ConfidenceThreshold req \<le> j_Confidence b"
    using assms(2) by (auto simp: keptEntries_def demoted_def)
  ultimately show "\<forall>x \<in> set (Assignments resp). ConfidenceThreshold req \<le> Confidence x"
    by (metis (no_types, lifting) image_iff)
next
  assume h: "distinct (Hunks req) \<and>
          (\<forall>b \<in> set (j_Assignments jsonResp).
              HunkIndex b = HunkIndex a \<longrightarrow> j_Confidence b < ConfidenceThreshold req)"
  define i where "i = nat (HunkIndex a)"
  have i: "i < length (Hunks req)" "int i = HunkIndex a" "Hunks req ! i = hunkAt req (HunkIndex a)"
    using assms(4) by (auto simp: i_def inRange_def hunkAt_def)
  have "\<not> (\<exists>b \<in> set (j_Assignments jsonResp). HunkIndex b = int i \<and> \<not> demoted req b)"
    using h assms(2) i(2) by (auto simp: demoted_def)
  then have "Hunks req ! i \<notin> Hunk ` set (Assignments resp)"
    using in_assignments_iff[OF assms(1) _ i(1)] h by blast
  then show "hunkAt req (HunkIndex a) \<notin> Hunk ` set (Assignments resp)" using i(3) by simp
qed

theorem best_match_demotion_witness:
  "parseAbsorbResponse doc_plain request_bm = Inr resp_plain
   \<and> Strategy request_bm = ''best-match''
   \<and> entry 1 ''22222222'' 0.5 [] \<in> set (j_Assignments doc_plain)
   \<and> inRange request_bm 1
   \<and> (0.5::real) < ConfidenceThreshold request_bm
   \<and> hunk_b \<in> set (UnmatchedHunks resp_plain)
   \<and> hunk_b \<notin> Hunk ` set (Assignments resp_plain)"
proof -
  let ?a = "entry 1 ''22222222'' 0.5 []"
  have p: "parseAbsorbResponse doc_plain request_bm = Inr resp_plain"
    by (simp add: parseAbsorbResponse_def doc_plain_def resp_plain_def example_defs firstLine_def)
  have s: "Strategy request_bm = ''best-match''" by (simp add: example_defs)
  have m: "?a \<in> set (j_Assignments doc_plain)" by (simp add: doc_plain_def)
  have r: "inRange request_bm (HunkIndex ?a)" by (simp add: inRange_def example_defs)
  have c: "j_Confidence ?a < ConfidenceThreshold request_bm" by (simp add: example_defs)
  have h: "hunkAt request_bm (HunkIndex ?a) = hunk_b" by (simp add: hunkAt_def example_defs)
  have d: "distinct (Hunks request_bm) \<and>
          (\<forall>b \<in> set (j_Assignments doc_plain).
              HunkIndex b = HunkIndex ?a \<longrightarrow> j_Confidence b < ConfidenceThreshold request_bm)"
    by (simp add: doc_plain_def example_defs)
  have e: "HunkIndex ?a = 1" "j_Confidence ?a = 0.5" by (simp_all add: entry_def)
  from best_match_demotion[OF p s m r c] d show ?thesis
    unfolding h using p s m r c unfolding e by blast
qed

text \<open>
  \<^bold>\<open>C3\<close> as stated fails: under "best-match" with threshold 0.7, the document's first
  entry proposes hunk 0 with confidence 0.5 and a second entry proposes hunk 0 with
  confidence 0.95; the hunk of the first entry is in the unmatched list and also in the
  assignments list.
\<close>

theorem demotion_counterexample:
  "parseAbsorbResponse doc_low_first request_bm = Inr resp_low_first
   \<and> j_Confidence (j_Assignments doc_low_first ! 0) < ConfidenceThreshold request_bm
   \<and> HunkIndex (j_Assignments doc_low_first ! 0) = 0
   \<and> Hunks request_bm ! 0 \<in> set (UnmatchedHunks resp_low_first)
   \<and> Hunks request_bm ! 0 \<in> Hunk ` set (Assignments resp_low_first)"
  by (simp add: parseAbsorbResponse_def doc_low_first_def resp_low_first_def example_defs firstLine_def)






section \<open>Proofs: diff parser\<close>


lemma no_change_iff:
  assumes "classified h"
  shows "AddedLines h = [] \<and> RemovedLines h = [] \<longleftrightarrow> (\<forall>l \<in> set (Lines h). \<not> isChange l)"
  using assms by (auto simp: classified_def isChange_def filter_empty_conv)

lemma added_not_removed: "isAdded l \<Longrightarrow> \<not> isRemoved l"
  by (cases l) (auto simp: isAdded_def isRemoved_def HasPrefix_def)

lemma takeWhile_all: "\<forall>x \<in> set ls. P x \<Longrightarrow> takeWhile P ls = ls"
  by simp

lemma dropWhile_all: "\<forall>x \<in> set ls. P x \<Longrightarrow> dropWhile P ls = []"
  by simp

lemma addLine_kinds:
  "addLine line h =
     (let h1 = h\<lparr>Content := Content h @ line @ [LF], Lines := Lines h @ [line]\<rparr> in
      if isAdded line then h1\<lparr>AddedLines := AddedLines h @ [TrimPrefix line ''+'']\<rparr>
      else if isRemoved line then h1\<lparr>RemovedLines := RemovedLines h @ [TrimPrefix line ''-'']\<rparr>
      else if isContext line
        then (if AddedLines h = [] \<and> RemovedLines h = []
              then h1\<lparr>ContextBefore := ContextBefore h @ [TrimPrefix line '' '']\<rparr>
              else h1\<lparr>ContextAfter := ContextAfter h @ [TrimPrefix line '' '']\<rparr>)
      else h1)"
  by (simp add: addLine_def Let_def isAdded_def isRemoved_def isContext_def isChange_def)

lemma addLine_classified:
  assumes "classified h"
  shows "classified (addLine line h)"
proof -
  note nc = no_change_iff[OF assms]
  let ?P = "\<lambda>l. \<not> isChange l"
  have cl: "AddedLines h = map (\<lambda>l. TrimPrefix l ''+'') (filter isAdded (Lines h))"
      "RemovedLines h = map (\<lambda>l. TrimPrefix l ''-'') (filter isRemoved (Lines h))"
      "ContextBefore h = map (\<lambda>l. TrimPrefix l '' '')
        (filter isContext (takeWhile ?P (Lines h)))"
      "ContextAfter h = map (\<lambda>l. TrimPrefix l '' '')
        (filter isContext (dropWhile ?P (Lines h)))"
      "Content h = Header h @ [LF] @ bodyText (Lines h)"
    using assms by (simp_all add: classified_def)
  have b: "bodyText (ls @ [line]) = bodyText ls @ line @ [LF]" for ls
    by (simp add: bodyText_def)
  consider (a) "isAdded line" "\<not> isRemoved line" "isChange line" "\<not> isContext line"
    | (r) "\<not> isAdded line" "isRemoved line" "isChange line" "\<not> isContext line"
    | (c) "\<not> isAdded line" "\<not> isRemoved line" "\<not> isChange line" "isContext line"
    | (o) "\<not> isAdded line" "\<not> isRemoved line" "\<not> isChange line" "\<not> isContext line"
    using added_not_removed[of line] by (auto simp: isChange_def isContext_def)
  then show ?thesis
  proof cases
    case a
    have eq: "addLine line h = h\<lparr>Content := Content h @ line @ [LF], Lines := Lines h @ [line],
                AddedLines := AddedLines h @ [TrimPrefix line ''+'']\<rparr>"
      using a by (simp add: addLine_kinds Let_def)
    show ?thesis unfolding eq classified_def using a cl
      by (simp add: b takeWhile_append dropWhile_append takeWhile_all dropWhile_all)
  next
    case r
    have eq: "addLine line h = h\<lparr>Content := Content h @ line @ [LF], Lines := Lines h @ [line],
                RemovedLines := RemovedLines h @ [TrimPrefix line ''-'']\<rparr>"
      using r by (simp add: addLine_kinds Let_def)
    show ?thesis unfolding eq classified_def using r cl
      by (simp add: b takeWhile_append dropWhile_append takeWhile_all dropWhile_all)
  next
    case c
    show ?thesis
    proof (cases "\<forall>l \<in> set (Lines h). \<not> isChange l")
      case True
      with nc have e: "AddedLines h = []" "RemovedLines h = []" by auto
      have eq: "addLine line h = h\<lparr>Content := Content h @ line @ [LF], Lines := Lines h @ [line],
                ContextBefore := ContextBefore h @ [TrimPrefix line '' '']\<rparr>"
        using c e by (simp add: addLine_kinds Let_def)
      have tw: "takeWhile ?P (Lines h) = Lines h" and dw: "dropWhile ?P (Lines h) = []"
        using True by simp_all
      show ?thesis unfolding eq classified_def using c e cl True
        by (simp add: b takeWhile_append dropWhile_append tw dw)
    next
      case False
      with nc have e: "\<not> (AddedLines h = [] \<and> RemovedLines h = [])" by auto
      have eq: "addLine line h = h\<lparr>Content := Content h @ line @ [LF], Lines := Lines h @ [line],
                ContextAfter := ContextAfter h @ [TrimPrefix line '' '']\<rparr>"
        using c e by (simp add: addLine_kinds Let_def)
      show ?thesis unfolding eq classified_def using c cl False
        by (simp add: b takeWhile_append dropWhile_append takeWhile_all dropWhile_all)
    qed
  next
    case o
    have eq: "addLine line h = h\<lparr>Content := Content h @ line @ [LF], Lines := Lines h @ [line]\<rparr>"
      using o by (simp add: addLine_kinds Let_def)
    show ?thesis unfolding eq classified_def using o cl
      by (simp add: b takeWhile_append dropWhile_append takeWhile_all dropWhile_all)
  qed
qed

lemma saveHunk_inv: "parser_inv s \<Longrightarrow> parser_inv (saveHunk s)"
  by (auto simp: parser_inv_def saveHunk_def split: option.splits)

lemma onFileHeader_inv: "parser_inv s \<Longrightarrow> parser_inv (onFileHeader line s)"
  by (auto simp: parser_inv_def onFileHeader_def saveHunk_def Let_def split: option.splits)

lemma onStatusHeader_inv: "parser_inv s \<Longrightarrow> parser_inv (onStatusHeader line s)"
  by (auto simp: parser_inv_def onStatusHeader_def)

lemma onHunkLine_inv:
  assumes "parser_inv s" "onHunkLine line s = Inr s'"
  shows "parser_inv s'"
proof (cases "HasPrefix line ''@@'' \<and> Contains line ''@@''")
  case True
  then obtain os oc ns nc where "parseHunkHeader line = Inr (os, oc, ns, nc)"
    using assms(2) by (auto simp: onHunkLine_def split: sum.splits error.splits)
  with True assms(2) have s': "s' = (saveHunk s)\<lparr>currentHunk := Some
                    \<lparr>FilePath = currentFile s, OldFilePath = oldFile s, IsNew = isNew s,
                     IsDeleted = isDeleted s, IsRenamed = isRenamed s, Header = line,
                     Content = line @ [LF], Lines = [], ContextBefore = [], ContextAfter = [],
                     AddedLines = [], RemovedLines = [], OldStartLine = os, OldLineCount = oc,
                     NewStartLine = ns, NewLineCount = nc\<rparr>,
                   inHunk := True\<rparr>"
    by (simp add: onHunkLine_def)
  have "parser_inv (saveHunk s)" using assms(1) by (rule saveHunk_inv)
  then show ?thesis unfolding s' by (simp add: parser_inv_def classified_def bodyText_def)
next
  case False
  then show ?thesis using assms addLine_classified
    by (auto simp: onHunkLine_def parser_inv_def split: option.splits if_splits)
qed

lemma parseLine_inv: "parser_inv s \<Longrightarrow> parseLine line s = Inr s' \<Longrightarrow> parser_inv s'"
  unfolding parseLine_def
  using onHunkLine_inv onStatusHeader_inv onFileHeader_inv by blast

lemma parseLines_inv: "parser_inv s \<Longrightarrow> parseLines ls s = Inr s' \<Longrightarrow> parser_inv s'"
proof (induction ls arbitrary: s)
  case Nil
  then show ?case by simp
next
  case (Cons l ls)
  then show ?case by (auto split: sum.splits dest: parseLine_inv)
qed

lemma SplitDiffIntoHunks_classified:
  assumes "SplitDiffIntoHunks diff = Inr hs" "h \<in> set hs"
  shows "classified h"
proof -
  obtain ls tl where sc: "scanLines diff = (ls, tl)" by (cases "scanLines diff")
  with assms(1) obtain s where s: "parseLines ls initial_parser = Inr s" "hs = hunks (saveHunk s)"
    by (auto simp: SplitDiffIntoHunks_def split: sum.splits if_splits)
  have "parser_inv initial_parser" by (simp add: parser_inv_def initial_parser_def)
  from parseLines_inv[OF this s(1)] have "parser_inv (saveHunk s)" by (rule saveHunk_inv)
  with s(2) assms(2) show ?thesis by (simp add: parser_inv_def)
qed






text \<open>
  The changed lines of the reconstruction are an interleaving of the added and the removed
  lines with their markers: filtering them by kind gives back each group.
\<close>

lemma changedLines_interleave:
  assumes "SplitDiffIntoHunks diff = Inr hs" and "h \<in> set hs"
  shows "filter isAdded (changedLines h) = map ((#) (CHR ''+'')) (AddedLines h)"
    and "filter isRemoved (changedLines h) = map ((#) (CHR ''-'')) (RemovedLines h)"
proof -
  have c: "classified h" using assms by (rule SplitDiffIntoHunks_classified)
  have a: "isAdded l \<Longrightarrow> CHR ''+'' # TrimPrefix l ''+'' = l" for l
    by (cases l) (auto simp: isAdded_def HasPrefix_def TrimPrefix_def)
  have r: "isRemoved l \<Longrightarrow> CHR ''-'' # TrimPrefix l ''-'' = l" for l
    by (cases l) (auto simp: isRemoved_def HasPrefix_def TrimPrefix_def)
  have fa: "filter (\<lambda>x. isChange x \<and> isAdded x) ls = filter isAdded ls" for ls
    by (rule filter_cong) (auto simp: isChange_def)
  have fr: "filter (\<lambda>x. isChange x \<and> isRemoved x) ls = filter isRemoved ls" for ls
    by (rule filter_cong) (auto simp: isChange_def)
  have ma: "map ((#) (CHR ''+'')) (map (\<lambda>l. TrimPrefix l ''+'') (filter isAdded ls)) = filter isAdded ls" for ls
    by (induction ls) (auto simp: a)
  have mr: "map ((#) (CHR ''-'')) (map (\<lambda>l. TrimPrefix l ''-'') (filter isRemoved ls)) = filter isRemoved ls" for ls
    by (induction ls) (auto simp: r)
  show "filter isAdded (changedLines h) = map ((#) (CHR ''+'')) (AddedLines h)"
    using c ma[of "Lines h"] by (simp add: changedLines_def fa classified_def)
  show "filter isRemoved (changedLines h) = map ((#) (CHR ''-'')) (RemovedLines h)"
    using c mr[of "Lines h"] by (simp add: changedLines_def fr classified_def)
qed




section \<open>Proofs: persisted undo state\<close>

lemma natOfDigits_snoc: "natOfDigits (ds @ [c]) = natOfDigits ds * 10 + digitVal c"
  by (simp add: natOfDigits_def)

lemma digit_char:
  assumes "d < 10"
  shows "isDigit (digitChar d) \<and> digitVal (digitChar d) = d
    \<and> \<not> isBlank (digitChar d) \<and> digitChar d \<noteq> CHR ''-'' \<and> digitChar d \<noteq> CHR ''+''"
proof -
  have "d \<in> {0, 1, 2, 3, 4, 5, 6, 7, 8, 9}" using assms by auto
  then show ?thesis
    by (auto simp: digitChar_def isDigit_def digitVal_def isBlank_def isSpace_def)
qed

lemma showNat_props:
  "showNat n \<noteq> [] \<and> (\<forall>c \<in> set (showNat n). isDigit c) \<and> natOfDigits (showNat n) = n
   \<and> \<not> isBlank (hd (showNat n)) \<and> hd (showNat n) \<noteq> CHR ''-'' \<and> hd (showNat n) \<noteq> CHR ''+''"
proof (induction n rule: showNat.induct)
  case (1 n)
  show ?case
  proof (cases "n < 10")
    case True
    then have s: "showNat n = [digitChar n]" by (subst showNat.simps) simp
    show ?thesis unfolding s using digit_char[OF True]
      by (simp add: natOfDigits_def)
  next
    case False
    then have s: "showNat n = showNat (n div 10) @ [digitChar (n mod 10)]"
      by (subst showNat.simps) simp
    have d: "n mod 10 < 10" by simp
    from 1[OF False] show ?thesis unfolding s using digit_char[OF d]
      by (simp add: natOfDigits_snoc)
  qed
qed

lemma dropWhile_hd: "xs \<noteq> [] \<Longrightarrow> \<not> P (hd xs) \<Longrightarrow> dropWhile P xs = xs"
  by (cases xs) simp_all

lemma sscanf_d_showInt:
  assumes "- (2 ^ 63) \<le> i" "i < 2 ^ 63"
  shows "sscanf_d (showInt i) = Some i"
proof (cases "i < 0")
  case False
  let ?s = "showNat (nat i)"
  note p = showNat_props[of "nat i"]
  have 1: "dropWhile isBlank ?s = ?s" using p by (simp add: dropWhile_hd)
  have 2: "takeWhile isDigit ?s = ?s" using p by simp
  show ?thesis using False assms p
    by (simp add: sscanf_d_def showInt_def 1 2 Let_def)
next
  case True
  let ?s = "showNat (nat (- i))"
  note p = showNat_props[of "nat (- i)"]
  have b: "\<not> isBlank (CHR ''-'')" by (simp add: isBlank_def isSpace_def)
  have 2: "takeWhile isDigit ?s = ?s" using p by simp
  show ?thesis using True assms p b
    by (simp add: sscanf_d_def showInt_def 2 Let_def)
qed

lemma timestamp_round_trip:
  "map_option word_of_int (sscanf_d (showInt (sint (t :: 64 word)))) = Some t"
proof -
  have "- (2 ^ 63) \<le> sint t" using sint_ge[of t] by simp
  moreover have "sint t < 2 ^ 63" using sint_lt[of t] by simp
  ultimately show ?thesis by (simp add: sscanf_d_showInt)
qed

lemma splitLF_line:
  "LF \<notin> set l \<Longrightarrow> splitLF cur (l @ LF # rest) = (cur @ l) # splitLF [] rest"
  by (induction l arbitrary: cur) auto

lemma splitLF_bodyText:
  "\<forall>l \<in> set ls. LF \<notin> set l \<Longrightarrow> splitLF [] (bodyText ls) = ls"
proof (induction ls)
  case Nil
  then show ?case by (simp add: bodyText_def)
next
  case (Cons l ls)
  have "bodyText (l # ls) = l @ LF # bodyText ls" by (simp add: bodyText_def)
  then show ?case using Cons splitLF_line[of l "[]" "bodyText ls"] by simp
qed

lemma scanLines_bodyText:
  assumes "\<forall>l \<in> set ls. scannable l"
  shows "scanLines (bodyText ls) = (ls, False)"
proof -
  have 1: "splitLF [] (bodyText ls) = ls"
    using assms by (simp add: splitLF_bodyText scannable_def)
  have 2: "takeWhile (\<lambda>l. length l < maxTokenSize) ls = ls"
    using assms by (simp add: scannable_def)
  have 3: "map dropCR ls = ls"
    by (rule map_idI) (use assms in \<open>auto simp: dropCR_def scannable_def\<close>)
  show ?thesis by (simp add: scanLines_def 1 2 3 Let_def)
qed

lemma SplitN2_keyValue:
  "CHR ''='' \<notin> set key \<Longrightarrow> SplitN2 (keyValue key v) (CHR ''='') = Some (key, v)"
  by (simp add: SplitN2_def keyValue_def takeWhile_append dropWhile_append)

lemma loadLine_keyValue:
  "loadLine s (keyValue ''original_head'' v) = s\<lparr>OriginalHEAD := v\<rparr>"
  "loadLine s (keyValue ''backup_ref'' v) = s\<lparr>BackupRef := v\<rparr>"
  "loadLine s (keyValue ''current_branch'' v) = s\<lparr>CurrentBranch := v\<rparr>"
  "loadLine s (keyValue ''stash_sha'' v) = s\<lparr>StashSHA := v\<rparr>"
  "loadLine s (keyValue ''operation'' v) = s\<lparr>Operations := Operations s @ [v]\<rparr>"
  "loadLine s (keyValue ''timestamp'' v) =
     (case sscanf_d v of Some n \<Rightarrow> s\<lparr>Timestamp := word_of_int n\<rparr> | None \<Rightarrow> s)"
  by (simp_all add: loadLine_def SplitN2_keyValue)

lemma load_operations:
  "foldl loadLine state (map (keyValue ''operation'') ops)
     = state\<lparr>Operations := Operations state @ ops\<rparr>"
  by (induction ops arbitrary: state) (simp_all add: loadLine_keyValue)

lemma load_stateLines: "foldl loadLine emptyState (stateLines state) = state"
proof -
  have t: "loadLine s (keyValue ''timestamp'' (showInt (sint (Timestamp state))))
             = s\<lparr>Timestamp := Timestamp state\<rparr>" for s
    using timestamp_round_trip[of "Timestamp state"]
    by (auto simp add: loadLine_keyValue split: option.splits)
  show ?thesis
    by (cases "StashSHA state = []")
       (simp_all add: stateLines_def loadLine_keyValue(1-5) t load_operations emptyState_def)
qed

lemma showNat_length: "0 < k \<Longrightarrow> n < 10 ^ k \<Longrightarrow> length (showNat n) \<le> k"
proof (induction k arbitrary: n)
  case 0
  then show ?case by simp
next
  case (Suc k)
  show ?case
  proof (cases "n < 10")
    case True
    then show ?thesis by (subst showNat.simps) simp
  next
    case False
    then have k: "0 < k" using Suc.prems by (cases k) auto
    have "n div 10 < 10 ^ k" using Suc.prems(2) by (simp add: less_mult_imp_div_less mult.commute)
    from Suc.IH[OF k this] False show ?thesis by (subst showNat.simps) simp
  qed
qed

lemma digit_not_eol: "isDigit c \<Longrightarrow> c \<noteq> LF \<and> c \<noteq> CR"
  by (auto simp: isDigit_def LF_def CR_def)

lemma showNat_line:
  assumes "n < 10 ^ 19"
  shows "LF \<notin> set (showNat n)" and "showNat n \<noteq> []" and "last (showNat n) \<noteq> CR"
    and "length (showNat n) \<le> 19" and "CR \<notin> set (showNat n)"
proof -
  note p = showNat_props[of n]
  show "showNat n \<noteq> []" using p by simp
  show 1: "LF \<notin> set (showNat n)" using p digit_not_eol by blast
  show 2: "CR \<notin> set (showNat n)" using p digit_not_eol by blast
  have "last (showNat n) \<in> set (showNat n)" using p by simp
  with 2 show "last (showNat n) \<noteq> CR" by metis
  show "length (showNat n) \<le> 19" using assms by (rule showNat_length[rotated]) simp
qed

lemma showInt_line:
  assumes "- (2 ^ 63) \<le> i" "i < 2 ^ 63"
  shows "LF \<notin> set (showInt i) \<and> showInt i \<noteq> [] \<and> last (showInt i) \<noteq> CR
     \<and> length (showInt i) \<le> 20"
proof (cases "i < 0")
  case True
  have m: "CHR ''-'' \<noteq> LF" by (simp add: LF_def)
  from True have n: "nat (- i) < 10 ^ 19" using assms by simp
  have e: "showInt i = CHR ''-'' # showNat (nat (- i))" using True by (simp add: showInt_def)
  show ?thesis unfolding e using showNat_line[OF n] m by simp
next
  case False
  then have n: "nat i < 10 ^ 19" using assms by simp
  have e: "showInt i = showNat (nat i)" using False by (simp add: showInt_def)
  show ?thesis unfolding e using showNat_line[OF n] by simp
qed

lemma storable_line:
  assumes "storable key v" "CHR ''='' \<notin> set key" "LF \<notin> set key"
  shows "scannable (keyValue key v)"
  using assms by (auto simp: storable_def scannable_def keyValue_def LF_def CR_def)

lemma stateLines_scannable:
  assumes "storableState state"
  shows "\<forall>l \<in> set (stateLines state). scannable l"
proof -
  let ?t = "showInt (sint (Timestamp state))"
  have r: "- (2 ^ 63) \<le> sint (Timestamp state)" "sint (Timestamp state) < 2 ^ 63"
    using sint_ge[of "Timestamp state"] sint_lt[of "Timestamp state"] by simp_all
  have "storable ''timestamp'' ?t"
    using showInt_line[OF r] by (simp add: storable_def maxTokenSize_def)
  then have ts: "scannable (keyValue ''timestamp'' ?t)"
    by (rule storable_line) (simp_all add: LF_def)
  have s: "storable ''original_head'' (OriginalHEAD state)"
     "storable ''backup_ref'' (BackupRef state)"
     "storable ''current_branch'' (CurrentBranch state)"
     "storable ''stash_sha'' (StashSHA state)"
    using assms by (simp_all add: storableState_def)
  have f1: "scannable (keyValue ''original_head'' (OriginalHEAD state))"
    using s(1) by (rule storable_line) (simp_all add: LF_def)
  have f2: "scannable (keyValue ''backup_ref'' (BackupRef state))"
    using s(2) by (rule storable_line) (simp_all add: LF_def)
  have f3: "scannable (keyValue ''current_branch'' (CurrentBranch state))"
    using s(3) by (rule storable_line) (simp_all add: LF_def)
  have f4: "scannable (keyValue ''stash_sha'' (StashSHA state))"
    using s(4) by (rule storable_line) (simp_all add: LF_def)
  have o: "scannable (keyValue ''operation'' op)" if "op \<in> set (Operations state)" for op
  proof -
    have "storable ''operation'' op" using that assms by (simp add: storableState_def list_all_iff)
    then show ?thesis by (rule storable_line) (simp_all add: LF_def)
  qed
  show ?thesis
  proof
    fix l assume "l \<in> set (stateLines state)"
    then consider "l = keyValue ''original_head'' (OriginalHEAD state)"
      | "l = keyValue ''backup_ref'' (BackupRef state)"
      | "l = keyValue ''current_branch'' (CurrentBranch state)"
      | "l = keyValue ''timestamp'' ?t"
      | "l = keyValue ''stash_sha'' (StashSHA state)"
      | op where "op \<in> set (Operations state)" "l = keyValue ''operation'' op"
      unfolding stateLines_def by (auto split: if_splits)
    then show "scannable l" using f1 f2 f3 f4 ts o by cases simp_all
  qed
qed

lemma load_stored_state:
  assumes "rootPath w = Some rootDir"
    and "files w (stateFilePath rootDir) = Some (bodyText (stateLines state))"
    and "storableState state"
  shows "LoadAbsorbState w = Inr state"
proof -
  have "scanLines (bodyText (stateLines state)) = (stateLines state, False)"
    using stateLines_scannable[OF assms(3)] by (rule scanLines_bodyText)
  then show ?thesis
    by (simp add: LoadAbsorbState_def assms(1,2) load_stateLines)
qed

text \<open>
  \<^bold>\<open>C10\<close> (state file round trip), as amended. For every AbsorbState whose OriginalHEAD,
  BackupRef, CurrentBranch, StashSHA and operation-log entries contain no line feed, do
  not end in a carriage return, and are short enough for their line of the record to stay
  below the 64 KiB token limit of the line scanner, LoadAbsorbState after a successful
  SaveAbsorbState returns a state equal to the saved one: every field round-trips (values
  containing \<^verbatim>\<open>=\<close> included), the operation log keeps its order, and an empty StashSHA
  comes back empty.
\<close>

theorem state_round_trip:
  assumes "SaveAbsorbState w state = Inr w'" and "storableState state"
  shows "LoadAbsorbState w' = Inr state"
proof -
  from assms(1) obtain rootDir where r: "rootPath w = Some rootDir"
    and w': "w' = w\<lparr>files := (files w)(stateFilePath rootDir \<mapsto> bodyText (stateLines state))\<rparr>"
    by (auto simp: SaveAbsorbState_def split: option.splits)
  show ?thesis
    by (rule load_stored_state[where rootDir = rootDir]) (simp_all add: w' r assms(2))
qed

lemma SaveAbsorbState_returns:
  "rootPath w \<noteq> None \<Longrightarrow> \<exists>w'. SaveAbsorbState w state = Inr w'"
  by (auto simp: SaveAbsorbState_def)

lemma showInt_example: "showInt 1700000000 = ''1700000000''"
  unfolding showInt_def by (simp add: showNat.simps digitChar_def)

lemma stateLines_state_cr: "stateLines state_cr = [''original_head=abc'' @ [CR], ''backup_ref=refs/cmt-backup/absorb-17'',
   ''current_branch=main'', ''timestamp=1700000000'', ''operation=Created 1 fixup commits'']"
  by (simp add: stateLines_def state_cr_def keyValue_def showInt_example)

lemma scanLines_state_cr: "scanLines (bodyText (stateLines state_cr)) = ([''original_head=abc'', ''backup_ref=refs/cmt-backup/absorb-17'',
   ''current_branch=main'', ''timestamp=1700000000'', ''operation=Created 1 fixup commits''], False)"
  by (simp add: stateLines_state_cr bodyText_def scanLines_def LF_def CR_def dropCR_def maxTokenSize_def)

lemma sscanf_d_example: "sscanf_d ''1700000000'' = Some 1700000000"
  by (simp add: sscanf_d_def isBlank_def isSpace_def isDigit_def natOfDigits_def digitVal_def LF_def)

text \<open>
  \<^bold>\<open>C10\<close> as stated fails: an OriginalHEAD of \<^verbatim>\<open>abc\<close> followed by a carriage return
  contains no newline character, and is read back as \<^verbatim>\<open>abc\<close>, because the line scanner
  drops a carriage return at the end of a line.
\<close>

theorem state_cr_counterexample:
  "SaveAbsorbState world0 state_cr
     = Inr (world0\<lparr>files := (files world0)(stateFilePath ''/repo'' \<mapsto> bodyText (stateLines state_cr))\<rparr>)
   \<and> LoadAbsorbState (world0\<lparr>files := (files world0)(stateFilePath ''/repo'' \<mapsto> bodyText (stateLines state_cr))\<rparr>)
     = Inr (state_cr\<lparr>OriginalHEAD := ''abc''\<rparr>)
   \<and> LF \<notin> set (OriginalHEAD state_cr) \<and> OriginalHEAD state_cr \<noteq> ''abc''"
proof -
  have lines: "[''original_head=abc'', ''backup_ref=refs/cmt-backup/absorb-17'',
   ''current_branch=main'', ''timestamp=1700000000'', ''operation=Created 1 fixup commits'']
    = [keyValue ''original_head'' ''abc'', keyValue ''backup_ref'' ''refs/cmt-backup/absorb-17'',
       keyValue ''current_branch'' ''main'', keyValue ''timestamp'' ''1700000000'',
       keyValue ''operation'' ''Created 1 fixup commits'']"
    by (simp add: keyValue_def)
  have l: "foldl loadLine emptyState [''original_head=abc'', ''backup_ref=refs/cmt-backup/absorb-17'',
   ''current_branch=main'', ''timestamp=1700000000'', ''operation=Created 1 fixup commits'']
     = state_cr\<lparr>OriginalHEAD := ''abc''\<rparr>"
    unfolding lines by (simp add: loadLine_keyValue sscanf_d_example emptyState_def state_cr_def)
  have s: "SaveAbsorbState world0 state_cr
     = Inr (world0\<lparr>files := (files world0)(stateFilePath ''/repo'' \<mapsto> bodyText (stateLines state_cr))\<rparr>)"
    by (simp add: SaveAbsorbState_def world0_def)
  have r: "rootPath world0 = Some ''/repo''" by (simp add: world0_def)
  have ld: "LoadAbsorbState (world0\<lparr>files := (files world0)(stateFilePath ''/repo'' \<mapsto> bodyText (stateLines state_cr))\<rparr>)
     = Inr (state_cr\<lparr>OriginalHEAD := ''abc''\<rparr>)"
    unfolding l[symmetric] by (simp add: LoadAbsorbState_def r scanLines_state_cr del: foldl_Cons)
  have n: "LF \<notin> set (OriginalHEAD state_cr) \<and> OriginalHEAD state_cr \<noteq> ''abc''"
    by (simp add: state_cr_def LF_def CR_def)
  from s ld n show ?thesis by simp
qed

theorem state_round_trip_witness:
  "SaveAbsorbState world0 state_ok
     = Inr (world0\<lparr>files := (files world0)(stateFilePath ''/repo'' \<mapsto> bodyText (stateLines state_ok))\<rparr>)
   \<and> storableState state_ok
   \<and> LoadAbsorbState (world0\<lparr>files := (files world0)(stateFilePath ''/repo'' \<mapsto> bodyText (stateLines state_ok))\<rparr>)
     = Inr state_ok"
proof -
  have s: "SaveAbsorbState world0 state_ok
     = Inr (world0\<lparr>files := (files world0)(stateFilePath ''/repo'' \<mapsto> bodyText (stateLines state_ok))\<rparr>)"
    by (simp add: SaveAbsorbState_def world0_def)
  have t: "storableState state_ok"
    by (simp add: storableState_def storable_def state_ok_def LF_def CR_def maxTokenSize_def)
  from state_round_trip[OF s t] s t show ?thesis by simp
qed

text \<open>
  A second way for the claim to fail: a field so long that its line reaches the token limit
  of the scanner makes LoadAbsorbState return an error.
\<close>

lemma state_file_long_line_fails:
  assumes "SaveAbsorbState w state = Inr w'" and "LF \<notin> set (OriginalHEAD state)"
    and "maxTokenSize \<le> length (OriginalHEAD state) + 14"
  shows "LoadAbsorbState w' = Inl (Err ''failed to read state file: bufio.Scanner: token too long'')"
proof -
  from assms(1) obtain rootDir where r: "rootPath w = Some rootDir"
    and w': "w' = w\<lparr>files := (files w)(stateFilePath rootDir \<mapsto> bodyText (stateLines state))\<rparr>"
    by (auto simp: SaveAbsorbState_def split: option.splits)
  let ?l = "keyValue ''original_head'' (OriginalHEAD state)"
  obtain rest where sl: "stateLines state = ?l # rest" by (simp add: stateLines_def)
  have nl: "LF \<notin> set ?l" using assms(2) by (simp add: keyValue_def LF_def)
  have len: "\<not> length ?l < maxTokenSize" using assms(3) by (simp add: keyValue_def)
  have "bodyText (stateLines state) = ?l @ LF # bodyText rest" by (simp add: sl bodyText_def)
  then have "splitLF [] (bodyText (stateLines state)) = ?l # splitLF [] (bodyText rest)"
    using splitLF_line[OF nl, of "[]" "bodyText rest"] by simp
  then have "scanLines (bodyText (stateLines state)) = ([], True)"
    using len by (simp add: scanLines_def Let_def)
  then show ?thesis by (simp add: LoadAbsorbState_def w' r)
qed

section \<open>Proofs: git operations\<close>

lemma run_props:
  assumes "run c w = (ok, w')"
  shows "fails w' = fails w" and "mapOrder w' = mapOrder w" and "rootPath w' = rootPath w"
    and "files w' = files w" and "printed w' = printed w"
    and "trace w' = trace w @ [(c, ok)]" and "ok = succeeds c w"
    and "w' = (if ok then effect c w else w)\<lparr>trace := trace w @ [(c, ok)]\<rparr>"
  using assms by (cases c; auto simp: run_def Let_def)+

lemma Println_props:
  "fails (Println m w) = fails w" "mapOrder (Println m w) = mapOrder w"
  "rootPath (Println m w) = rootPath w" "files (Println m w) = files w"
  "trace (Println m w) = trace w" "refs (Println m w) = refs w"
  "branch (Println m w) = branch w" "heads (Println m w) = heads w"
  "stashes (Println m w) = stashes w" "printed (Println m w) = printed w @ [m]"
  by (simp_all add: Println_def)

lemma newTrace_append: "trace w' = trace w @ t \<Longrightarrow> newTrace w w' = t"
  by (simp add: newTrace_def)

subsection \<open>Restoring files before the patch\<close>

lemma resetFiles_props:
  "resetFiles hs w = (r, w') \<Longrightarrow>
     fails w' = fails w \<and> mapOrder w' = mapOrder w \<and>
     (\<exists>k \<le> length hs. trace w' = trace w @ map (restoreEntry w) (take k hs)
                        \<and> (r = None \<longrightarrow> k = length hs)) \<and>
     (r = None \<longleftrightarrow> (\<forall>h \<in> set hs. IsNew h \<or> \<not> fails w (GitCheckoutHead (FilePath h))))"
proof (induction hs arbitrary: w)
  case Nil
  then show ?case by auto
next
  case (Cons h hs)
  obtain ok w1 where r1: "run (GitCheckoutHead (FilePath h)) w = (ok, w1)"
    by (cases "run (GitCheckoutHead (FilePath h)) w")
  note p = run_props[OF r1]
  have ok: "ok = (\<not> fails w (GitCheckoutHead (FilePath h)))" using p(7) by simp
  have t1: "trace w1 = trace w @ [restoreEntry w h]" using p(6) ok by (simp add: restoreEntry_def)
  show ?case
  proof (cases "\<not> ok \<and> \<not> IsNew h")
    case True
    with Cons.prems r1 have e: "r = Some (Err (''failed to reset file '' @ FilePath h))" "w' = w1"
      by auto
    have "trace w' = trace w @ map (restoreEntry w) (take 1 (h # hs))" using t1 e by simp
    moreover have "(1::nat) \<le> length (h # hs)" by simp
    ultimately have "\<exists>k \<le> length (h # hs). trace w' = trace w @ map (restoreEntry w) (take k (h # hs))
                        \<and> (r = None \<longrightarrow> k = length (h # hs))"
      using e(1) by blast
    then show ?thesis using e p(1,2) True ok by auto
  next
    case False
    with Cons.prems r1 have rest: "resetFiles hs w1 = (r, w')" by auto
    from Cons.IH[OF rest] obtain k where
      k: "k \<le> length hs" "trace w' = trace w1 @ map (restoreEntry w1) (take k hs)"
         "r = None \<longrightarrow> k = length hs"
      and f: "fails w' = fails w1" "mapOrder w' = mapOrder w1"
      and n: "r = None \<longleftrightarrow> (\<forall>h \<in> set hs. IsNew h \<or> \<not> fails w1 (GitCheckoutHead (FilePath h)))"
      by blast
    have re: "restoreEntry w1 = restoreEntry w" using p(1) by (simp add: restoreEntry_def fun_eq_iff)
    have "trace w' = trace w @ map (restoreEntry w) (take (Suc k) (h # hs))"
      using k(2) t1 re by simp
    moreover have "Suc k \<le> length (h # hs)" using k(1) by simp
    moreover have "r = None \<longrightarrow> Suc k = length (h # hs)" using k(3) by simp
    ultimately have ex: "\<exists>k \<le> length (h # hs). trace w' = trace w @ map (restoreEntry w) (take k (h # hs))
                        \<and> (r = None \<longrightarrow> k = length (h # hs))"
      by blast
    have "r = None \<longleftrightarrow> (\<forall>x \<in> set (h # hs). IsNew x \<or> \<not> fails w (GitCheckoutHead (FilePath x)))"
      using n False ok p(1) by auto
    with ex f p(1,2) show ?thesis by simp
  qed
qed

lemma isRestore_restoreEntry: "list_all isRestore (map (restoreEntry w) hs)"
  by (induction hs) (simp_all add: isRestore_def restoreEntry_def)

lemma CreateFixupCommit_trace:
  "CreateFixupCommit sha m w = (r, w') \<Longrightarrow> \<exists>t. trace w' = trace w @ t"
  by (auto simp: CreateFixupCommit_def Let_def split: if_splits prod.splits dest: run_props(6))

text \<open>
  \<^bold>\<open>C8\<close> (restore before apply). In ApplyHunksAsFixup: when the restore of the file of
  a hunk that is not marked new fails, the call returns an error and has run nothing but
  restores (no patch application, no commit); when the call has run anything else, the
  restores of all hunks' files come first in its trace, and each succeeded or belongs to
  a hunk marked new; and when only restores of hunks marked new fail, the restores are
  followed by the application of the patch.
\<close>

theorem restore_before_apply:
  assumes "ApplyHunksAsFixup hs targetSHA w = (r, w')"
  shows "((\<exists>h \<in> set hs. \<not> IsNew h \<and> fails w (GitCheckoutHead (FilePath h)))
            \<longrightarrow> r \<noteq> None \<and> list_all isRestore (newTrace w w'))
       \<and> (\<not> list_all isRestore (newTrace w w')
            \<longrightarrow> take (length hs) (newTrace w w') = map (restoreEntry w) hs
                \<and> (\<forall>h \<in> set hs. IsNew h \<or> \<not> fails w (GitCheckoutHead (FilePath h))))
       \<and> (hs \<noteq> [] \<and> (\<forall>h \<in> set hs. fails w (GitCheckoutHead (FilePath h)) \<longrightarrow> IsNew h)
            \<longrightarrow> (\<exists>rest. newTrace w w' = map (restoreEntry w) hs
                   @ (GitApplyIndex (createPatchFile w hs),
                      \<not> fails w (GitApplyIndex (createPatchFile w hs))) # rest))"
proof (cases "hs = []")
  case True
  with assms have "w' = w" by (simp add: ApplyHunksAsFixup_def)
  then show ?thesis using True by (simp add: newTrace_def)
next
  case False
  obtain r1 w1 where rf: "resetFiles hs w = (r1, w1)" by (cases "resetFiles hs w")
  from resetFiles_props[OF rf] obtain k where
    k: "k \<le> length hs" "trace w1 = trace w @ map (restoreEntry w) (take k hs)"
       "r1 = None \<longrightarrow> k = length hs"
    and f: "fails w1 = fails w"
    and n: "r1 = None \<longleftrightarrow> (\<forall>h \<in> set hs. IsNew h \<or> \<not> fails w (GitCheckoutHead (FilePath h)))"
    by blast
  show ?thesis
  proof (cases r1)
    case (Some e)
    with assms rf False have res: "r = Some e" "w' = w1"
      by (simp_all add: ApplyHunksAsFixup_def Let_def)
    have nt: "newTrace w w' = map (restoreEntry w) (take k hs)"
      using k(2) res(2) by (simp add: newTrace_def)
    have all: "list_all isRestore (newTrace w w')" unfolding nt by (rule isRestore_restoreEntry)
    have bad: "\<not> (\<forall>h \<in> set hs. IsNew h \<or> \<not> fails w (GitCheckoutHead (FilePath h)))"
      using n Some by simp
    show ?thesis using res(1) all bad by blast
  next
    case None
    then have kk: "k = length hs" using k(3) by simp
    have good: "\<forall>h \<in> set hs. IsNew h \<or> \<not> fails w (GitCheckoutHead (FilePath h))"
      using n None by simp
    let ?p = "createPatchFile w hs"
    obtain ok w2 where r2: "run (GitApplyIndex ?p) w1 = (ok, w2)"
      by (cases "run (GitApplyIndex ?p) w1")
    note p = run_props[OF r2]
    have ok: "ok = (\<not> fails w (GitApplyIndex ?p))" using p(7) f by simp
    have t2: "trace w2 = trace w @ map (restoreEntry w) hs @ [(GitApplyIndex ?p, ok)]"
      using p(6) k(2) kk by simp
    have "\<exists>t. trace w' = trace w2 @ t"
    proof (cases ok)
      case True
      with assms rf None r2 False have "CreateFixupCommit targetSHA [] w2 = (r, w')"
        by (simp add: ApplyHunksAsFixup_def Let_def)
      then show ?thesis by (rule CreateFixupCommit_trace)
    next
      case False
      with assms rf None r2 \<open>hs \<noteq> []\<close> have "w' = w2"
        by (simp add: ApplyHunksAsFixup_def Let_def)
      then show ?thesis by simp
    qed
    then obtain t where t: "trace w' = trace w2 @ t" by blast
    have nt: "newTrace w w' = map (restoreEntry w) hs @ (GitApplyIndex ?p, ok) # t"
      using t t2 by (simp add: newTrace_def)
    have "take (length hs) (newTrace w w') = map (restoreEntry w) hs" unfolding nt by simp
    with good nt ok show ?thesis by blast
  qed
qed

subsection \<open>The loop over the target commits\<close>

lemma createFixups_append:
  "createFixups (pre @ rest) w =
     (case createFixups pre w of (None, w1) \<Rightarrow> createFixups rest w1 | (Some e, w1) \<Rightarrow> (Some e, w1))"
proof (induction pre arbitrary: w)
  case Nil
  then show ?case by simp
next
  case (Cons p pre)
  obtain sha hs where p: "p = (sha, hs)" by (cases p)
  show ?case unfolding p
    by (auto simp: Cons.IH split: prod.splits option.splits error.splits)
qed

text \<open>
  \<^bold>\<open>C5\<close> (per-target loop), as amended. In the loop that calls ApplyHunksAsFixup once per
  target commit, the first target whose call fails ends the loop: the targets after it in
  the order of the iteration are not attempted (the result and the repository are those
  right after the failing call, whatever targets follow), and the error returned to the
  caller names the failing target by the first 8 bytes of its SHA.
\<close>

theorem apply_loop_stops_at_first_failure:
  assumes "Assignments resp \<noteq> []"
    and "mapOrder w (commitHunks (Assignments resp)) = pre @ (sha, hs) # post"
    and "createFixups pre w = (None, w1)"
    and "ApplyHunksAsFixup hs sha w1 = (Some (Err m), w2)"
    and "8 \<le> length sha"
  shows "applyAssignments resp w =
           (Some (Err (''failed to create fixup commit for '' @ take 8 sha @ '': '' @ m)), w2)"
  using assms by (simp add: applyAssignments_def createFixups_append)

subsection \<open>Cleanup of backups\<close>

lemma DeleteBackupRef_props:
  assumes "DeleteBackupRef ref w = (r, w')"
  shows "fails w' = fails w"
    and "r = None \<longleftrightarrow> \<not> fails w (GitUpdateRefDelete ref)"
    and "refs w' = (if fails w (GitUpdateRefDelete ref) then refs w
                    else filter (\<lambda>p. fst p \<noteq> ref) (refs w))"
    and "trace w' = trace w @ [(GitUpdateRefDelete ref, \<not> fails w (GitUpdateRefDelete ref))]"
    and "files w' = files w" and "rootPath w' = rootPath w"
    and "branch w' = branch w" and "heads w' = heads w" and "printed w' = printed w"
  using assms by (auto simp: DeleteBackupRef_def run_def Let_def split: if_splits)







subsection \<open>Undo\<close>

lemma StashPop_props:
  assumes "StashPop w = (r, w')"
  shows "trace w' = trace w @ [(GitStashPop, r = None)]"
    and "r \<noteq> None \<Longrightarrow> r = Some (Err ''git stash pop failed'')"
    and "fails w' = fails w" and "files w' = files w" and "rootPath w' = rootPath w"
    and "branch w' = branch w" and "heads w' = heads w" and "refs w' = refs w"
    and "printed w' = printed w"
  using assms by (auto simp: StashPop_def run_def Let_def split: if_splits)

text \<open>
  \<^bold>\<open>C6\<close> (undo with a failing stash reapplication). When UndoAbsorb has run
  \<^verbatim>\<open>git stash pop\<close> and it failed, the call returns no error; the git commands it ran are
  the checkout of the recorded branch and the reset to the recorded backup reference, both
  successful, then the failed stash pop, then the deletion of the backup reference; the
  recorded branch is checked out and its head is the commit the backup reference named;
  the stash failure is printed as a warning; and the state record is gone from the
  file system, so that a second undo finds nothing to undo.
\<close>

theorem undo_survives_stash_failure:
  assumes "UndoAbsorb w = (r, w')"
    and "(GitStashPop, False) \<in> set (newTrace w w')"
  shows "\<exists>state rootDir okd.
           LoadAbsorbState w = Inr state \<and> rootPath w = Some rootDir \<and> r = None
         \<and> newTrace w w' = [(GitCheckout (CurrentBranch state), True),
                             (GitResetMixed (BackupRef state), True),
                             (GitStashPop, False),
                             (GitUpdateRefDelete (BackupRef state), okd)]
         \<and> branch w' = CurrentBranch state
         \<and> heads w' (CurrentBranch state) = map_of (refs w) (BackupRef state)
         \<and> ''Warning: Could not restore stashed changes: git stash pop failed'' \<in> set (printed w')
         \<and> files w' (stateFilePath rootDir) = None
         \<and> LoadAbsorbState w' = Inl (Err ''no absorb state found to undo'')"
proof -
  have nt0: "w' = w \<Longrightarrow> False" using assms(2) by (simp add: newTrace_def)
  obtain state where ld: "LoadAbsorbState w = Inr state"
    using assms(1) nt0 by (cases "LoadAbsorbState w") (auto simp: UndoAbsorb_def)
  then obtain rootDir where rp: "rootPath w = Some rootDir"
    by (auto simp: LoadAbsorbState_def split: option.splits)
  have br: "BackupRef state \<noteq> []" using assms(1) nt0 ld by (auto simp: UndoAbsorb_def)
  obtain ok1 w1 where r1: "run (GitCheckout (CurrentBranch state)) w = (ok1, w1)"
    by (cases "run (GitCheckout (CurrentBranch state)) w")
  note p1 = run_props[OF r1]
  have ok1: ok1
  proof (rule ccontr)
    assume "\<not> ok1"
    then have "w' = w1" using assms(1) ld br r1 by (simp add: UndoAbsorb_def)
    then have "newTrace w w' = [(GitCheckout (CurrentBranch state), ok1)]"
      using p1(6) by (simp add: newTrace_def)
    with assms(2) show False by simp
  qed
  obtain ok2 w2 where r2: "run (GitResetMixed (BackupRef state)) w1 = (ok2, w2)"
    by (cases "run (GitResetMixed (BackupRef state)) w1")
  note p2 = run_props[OF r2]
  have ok2: ok2
  proof (rule ccontr)
    assume "\<not> ok2"
    then have "w' = w2" using assms(1) ld br r1 ok1 r2 by (simp add: UndoAbsorb_def)
    then have "newTrace w w' = [(GitCheckout (CurrentBranch state), ok1),
                                (GitResetMixed (BackupRef state), ok2)]"
      using p1(6) p2(6) by (simp add: newTrace_def)
    with assms(2) show False by simp
  qed
  define w3 where "w3 = (if StashSHA state \<noteq> [] then
                           (case StashPop w2 of
                              (Some e, w') \<Rightarrow>
                                Println ''   You may need to manually run: git stash pop''
                                  (Println (''Warning: Could not restore stashed changes: ''
                                              @ errorText e) w')
                            | (None, w') \<Rightarrow> w')
                         else w2)"
  obtain rd w4' where d: "DeleteBackupRef (BackupRef state) w3 = (rd, w4')"
    by (cases "DeleteBackupRef (BackupRef state) w3")
  note pd = DeleteBackupRef_props[OF d]
  define w4 where "w4 = (case rd of
                           Some e \<Rightarrow> Println (''Warning: Could not delete backup ref: ''
                                                    @ errorText e) w4'
                         | None \<Rightarrow> w4')"
  have res: "r = None"
    "w' = removeFile (stateFilePath (case rootPath w4 of Some r \<Rightarrow> r | None \<Rightarrow> [])) w4"
    using assms(1) ld br r1 ok1 r2 ok2 d
    by (auto simp: UndoAbsorb_def Let_def w3_def w4_def split: option.splits)
  have tr4: "trace w4 = trace w3 @ [(GitUpdateRefDelete (BackupRef state),
                                      \<not> fails w3 (GitUpdateRefDelete (BackupRef state)))]"
    using pd(4) by (cases rd) (simp_all add: w4_def Println_props)
  have tr': "trace w' = trace w4" using res(2) by (simp add: removeFile_def)
  have tr2: "trace w2 = trace w @ [(GitCheckout (CurrentBranch state), True),
                                   (GitResetMixed (BackupRef state), True)]"
    using p1(6) p2(6) ok1 ok2 by simp
  have st: "StashSHA state \<noteq> []"
  proof (rule ccontr)
    assume "\<not> StashSHA state \<noteq> []"
    then have "w3 = w2" by (simp add: w3_def)
    then have "newTrace w w' = [(GitCheckout (CurrentBranch state), True),
                   (GitResetMixed (BackupRef state), True),
                   (GitUpdateRefDelete (BackupRef state),
                      \<not> fails w3 (GitUpdateRefDelete (BackupRef state)))]"
      using tr' tr4 tr2 by (simp add: newTrace_def)
    with assms(2) show False by simp
  qed
  obtain rs ws where sp: "StashPop w2 = (rs, ws)" by (cases "StashPop w2")
  note ps = StashPop_props[OF sp]
  have tr3: "trace w3 = trace w2 @ [(GitStashPop, rs = None)]"
    using st sp ps(1) by (cases rs) (simp_all add: w3_def Println_props)
  have nt: "newTrace w w' = [(GitCheckout (CurrentBranch state), True),
                   (GitResetMixed (BackupRef state), True),
                   (GitStashPop, rs = None),
                   (GitUpdateRefDelete (BackupRef state),
                      \<not> fails w3 (GitUpdateRefDelete (BackupRef state)))]"
    using tr' tr4 tr3 tr2 by (simp add: newTrace_def)
  have rs: "rs = Some (Err ''git stash pop failed'')"
    using assms(2) ps(2) unfolding nt by auto
  have w3: "w3 = Println ''   You may need to manually run: git stash pop''
                   (Println ''Warning: Could not restore stashed changes: git stash pop failed'' ws)"
    using st sp rs by (simp add: w3_def errorText_def)
  have warn3: "''Warning: Could not restore stashed changes: git stash pop failed'' \<in> set (printed w3)"
    unfolding w3 by (simp add: Println_props)
  have pr4: "set (printed w3) \<subseteq> set (printed w4)"
    using pd(9) by (cases rd) (auto simp: w4_def Println_props)
  have pr': "printed w' = printed w4" using res(2) by (simp add: removeFile_def)
  have b1: "branch w1 = CurrentBranch state" "heads w1 = heads w" "refs w1 = refs w"
    using p1(8) ok1 by simp_all
  have b2: "branch w2 = CurrentBranch state"
    "heads w2 = (heads w)(CurrentBranch state := map_of (refs w) (BackupRef state))"
    using p2(8) ok2 b1 by simp_all
  have b3: "branch w3 = branch w2" "heads w3 = heads w2" "rootPath w3 = rootPath w2"
    unfolding w3 using ps by (simp_all add: Println_props)
  have b4: "branch w4 = branch w3" "heads w4 = heads w3" "rootPath w4 = rootPath w3"
    using pd by (cases rd; simp add: w4_def Println_props)+
  have rp4: "rootPath w4 = Some rootDir" using b4(3) b3(3) p2(3) p1(3) rp by simp
  have w': "w' = removeFile (stateFilePath rootDir) w4" using res(2) rp4 by simp
  have fin: "branch w' = CurrentBranch state"
    "heads w' (CurrentBranch state) = map_of (refs w) (BackupRef state)"
    "files w' (stateFilePath rootDir) = None" "rootPath w' = Some rootDir"
    unfolding w' using b4 b3 b2 rp4 by (simp_all add: removeFile_def)
  have ld': "LoadAbsorbState w' = Inl (Err ''no absorb state found to undo'')"
    using fin(3,4) by (simp add: LoadAbsorbState_def)
  have "''Warning: Could not restore stashed changes: git stash pop failed'' \<in> set (printed w')"
    using warn3 pr4 pr' by auto
  with ld rp res(1) nt rs fin ld' show ?thesis by auto
qed

lemma storable_examples: "storableState state_ok" "storableState state_stash"
  by (simp_all add: storableState_def storable_def state_ok_def state_stash_def
        LF_def CR_def maxTokenSize_def)

lemma load_world_undo: "LoadAbsorbState world_undo = Inr state_stash"
  by (rule load_stored_state[where rootDir = "''/repo''"])
     (simp_all add: world_undo_def world0_def storable_examples)


theorem undo_survives_stash_failure_witness:
  "(GitStashPop, False) \<in> set (newTrace world_undo (snd (UndoAbsorb world_undo)))
   \<and> fst (UndoAbsorb world_undo) = None
   \<and> branch (snd (UndoAbsorb world_undo)) = ''main''
   \<and> heads (snd (UndoAbsorb world_undo)) ''main'' = Some ''c5''
   \<and> files (snd (UndoAbsorb world_undo)) (stateFilePath ''/repo'') = None"
proof -
  have s: "BackupRef state_stash = ''refs/cmt-backup/absorb-17''" "CurrentBranch state_stash = ''main''"
    "StashSHA state_stash = ''5ta5h''"
    by (simp_all add: state_stash_def state_ok_def)
  have t: "trace (snd (UndoAbsorb world_undo)) =
      [(GitCheckout ''main'', True), (GitResetMixed ''refs/cmt-backup/absorb-17'', True),
       (GitStashPop, False), (GitUpdateRefDelete ''refs/cmt-backup/absorb-17'', True)]"
    by (simp only: UndoAbsorb_def load_world_undo sum.case s)
       (simp add: run_def StashPop_def DeleteBackupRef_def
          Println_def removeFile_def Let_def world_undo_def world0_def errorText_def)
  have h: "(GitStashPop, False) \<in> set (newTrace world_undo (snd (UndoAbsorb world_undo)))"
    unfolding newTrace_def t by (simp add: world_undo_def world0_def)
  have e: "UndoAbsorb world_undo = (fst (UndoAbsorb world_undo), snd (UndoAbsorb world_undo))"
    by simp
  have r: "rootPath world_undo = Some ''/repo''" "refs world_undo = [(''refs/cmt-backup/absorb-17'', ''c5'')]"
    by (simp_all add: world_undo_def world0_def)
  from undo_survives_stash_failure[OF e h] h show ?thesis
    by (auto simp: load_world_undo s r)
qed



lemma commitHunks_resp_two:
  "commitHunks (Assignments resp_two)
     = [(''1111111111aaaaaaaaaa'', [hunk_a]), (''2222222222bbbbbbbbbb'', [hunk_b])]"
  by (simp add: commitHunks_def resp_two_def)

lemma apply_a_fails:
  "ApplyHunksAsFixup [hunk_a] ''1111111111aaaaaaaaaa'' world_apply
     = (Some (Err ''failed to apply patch''),
        world_apply\<lparr>trace := [(GitCheckoutHead ''a.txt'', True),
                               (GitApplyIndex (patchSection (''a.txt'', [hunk_a])), False)]\<rparr>)"
proof -
  have f: "FilePath hunk_a = ''a.txt''" by (simp add: hunk_a_def)
  have p: "createPatchFile w [hunk_a] = patchSection (''a.txt'', [hunk_a])" if "mapOrder w = (\<lambda>m. m)" for w
    using that by (simp add: createPatchFile_def fileHunks_def f)
  show ?thesis
    by (simp add: ApplyHunksAsFixup_def p f run_def Let_def world_apply_def world0_def)
qed

text \<open>
  \<^bold>\<open>C5\<close> as stated fails: with two targets, when the patch of the first does not apply,
  the loop returns the error of the first target and has run no command for the second:
  its trace is the restore of \<^verbatim>\<open>a.txt\<close> and the failed patch application.
\<close>

theorem apply_loop_counterexample:
  "fst (applyAssignments resp_two world_apply)
     = Some (Err ''failed to create fixup commit for 11111111: failed to apply patch'')
   \<and> map CommitSHA (Assignments resp_two) = [''1111111111aaaaaaaaaa'', ''2222222222bbbbbbbbbb'']
   \<and> trace (snd (applyAssignments resp_two world_apply))
       = [(GitCheckoutHead ''a.txt'', True),
          (GitApplyIndex (patchSection (''a.txt'', [hunk_a])), False)]"
proof -
  have m: "mapOrder world_apply = (\<lambda>m. m)" by (simp add: world_apply_def world0_def)
  have n: "Assignments resp_two \<noteq> []" "map CommitSHA (Assignments resp_two)
      = [''1111111111aaaaaaaaaa'', ''2222222222bbbbbbbbbb'']"
    by (simp_all add: resp_two_def)
  show ?thesis
    using n by (simp add: applyAssignments_def m commitHunks_resp_two apply_a_fails)
qed

theorem apply_loop_stops_at_first_failure_witness:
  "mapOrder world_apply (commitHunks (Assignments resp_two))
     = [] @ (''1111111111aaaaaaaaaa'', [hunk_a]) # [(''2222222222bbbbbbbbbb'', [hunk_b])]
   \<and> applyAssignments resp_two world_apply
     = (Some (Err ''failed to create fixup commit for 11111111: failed to apply patch''),
        world_apply\<lparr>trace := [(GitCheckoutHead ''a.txt'', True),
                               (GitApplyIndex (patchSection (''a.txt'', [hunk_a])), False)]\<rparr>)"
proof -
  have m: "mapOrder world_apply (commitHunks (Assignments resp_two))
     = [] @ (''1111111111aaaaaaaaaa'', [hunk_a]) # [(''2222222222bbbbbbbbbb'', [hunk_b])]"
    by (simp add: world_apply_def world0_def commitHunks_resp_two)
  have n: "Assignments resp_two \<noteq> []" by (simp add: resp_two_def)
  have c: "createFixups [] world_apply = (None, world_apply)" by simp
  have l: "8 \<le> length ''1111111111aaaaaaaaaa''" by simp
  from apply_loop_stops_at_first_failure[OF n m c apply_a_fails l] m show ?thesis by simp
qed

theorem restore_before_apply_witness:
  "take 3 (newTrace world_new_file
            (snd (ApplyHunksAsFixup [hunk_b, hunk_a] ''1111111111aaaaaaaaaa'' world_new_file)))
     = [(GitCheckoutHead ''b.txt'', False), (GitCheckoutHead ''a.txt'', True),
        (GitApplyIndex (createPatchFile world_new_file [hunk_b, hunk_a]), True)]
   \<and> IsNew hunk_b \<and> fails world_new_file (GitCheckoutHead (FilePath hunk_b))
   \<and> \<not> IsNew hunk_a \<and> fails world_old_file (GitCheckoutHead (FilePath hunk_a))
   \<and> fst (ApplyHunksAsFixup [hunk_b, hunk_a] ''1111111111aaaaaaaaaa'' world_old_file) \<noteq> None
   \<and> list_all isRestore (newTrace world_old_file
        (snd (ApplyHunksAsFixup [hunk_b, hunk_a] ''1111111111aaaaaaaaaa'' world_old_file)))"
proof -
  let ?hs = "[hunk_b, hunk_a]" and ?t = "''1111111111aaaaaaaaaa''"
  have f: "FilePath hunk_a = ''a.txt''" "FilePath hunk_b = ''b.txt''" "IsNew hunk_b" "\<not> IsNew hunk_a"
    by (simp_all add: hunk_a_def hunk_b_def)
  have e1: "ApplyHunksAsFixup ?hs ?t world_new_file
     = (fst (ApplyHunksAsFixup ?hs ?t world_new_file), snd (ApplyHunksAsFixup ?hs ?t world_new_file))"
    by simp
  have e2: "ApplyHunksAsFixup ?hs ?t world_old_file
     = (fst (ApplyHunksAsFixup ?hs ?t world_old_file), snd (ApplyHunksAsFixup ?hs ?t world_old_file))"
    by simp
  have g1: "?hs \<noteq> [] \<and> (\<forall>h \<in> set ?hs. fails world_new_file (GitCheckoutHead (FilePath h)) \<longrightarrow> IsNew h)"
    by (simp add: f world_new_file_def world0_def)
  have g2: "\<exists>h \<in> set ?hs. \<not> IsNew h \<and> fails world_old_file (GitCheckoutHead (FilePath h))"
    by (simp add: f world_old_file_def world0_def)
  have fl: "fails world_new_file (GitCheckoutHead (FilePath hunk_b))"
    "fails world_old_file (GitCheckoutHead (FilePath hunk_a))"
    "\<not> fails world_new_file (GitCheckoutHead ''a.txt'')"
    "\<not> fails world_new_file (GitApplyIndex p)" for p
    by (simp_all add: f world_new_file_def world_old_file_def world0_def)
  from restore_before_apply[OF e1] g1 obtain rest where
    "newTrace world_new_file (snd (ApplyHunksAsFixup ?hs ?t world_new_file))
       = map (restoreEntry world_new_file) ?hs
         @ (GitApplyIndex (createPatchFile world_new_file ?hs),
            \<not> fails world_new_file (GitApplyIndex (createPatchFile world_new_file ?hs))) # rest"
    by blast
  then have a: "take 3 (newTrace world_new_file (snd (ApplyHunksAsFixup ?hs ?t world_new_file)))
     = [(GitCheckoutHead ''b.txt'', False), (GitCheckoutHead ''a.txt'', True),
        (GitApplyIndex (createPatchFile world_new_file ?hs), True)]"
    using fl f by (simp add: restoreEntry_def)
  from restore_before_apply[OF e2] g2 have
    b: "fst (ApplyHunksAsFixup ?hs ?t world_old_file) \<noteq> None
        \<and> list_all isRestore (newTrace world_old_file (snd (ApplyHunksAsFixup ?hs ?t world_old_file)))"
    by blast
  from a b f fl show ?thesis by simp
qed

section \<open>Proofs: review state\<close>

lemmas review_defs = NewAbsorbReviewModel_def Update_def Matches_def keysAccept_def keysCancel_def
  keysAlternatives_def keysUnassign_def keysNextHunk_def keysPrevHunk_def keysUp_def keysDown_def
  unassign_def renderContent_def renderAlternatives_def removeInPlace_def assignments_def
  applyAlternative_def GetResult_def

text \<open>
  Inside the review model the unassign operation does what the claim says: the model's
  assignments lose the current entry and nothing else, and its hunk is appended to the
  model's unmatched list.
\<close>

lemma unassign_model:
  assumes "unassign m = Inr m'" and "currentIndex m < m_len m" and "m_len m \<le> length (m_array m)"
  shows "assignments m' = take (currentIndex m) (assignments m) @ drop (Suc (currentIndex m)) (assignments m)"
    and "unmatched m' = unmatched m @ [Hunk (assignments m ! currentIndex m)]"
    and "modifications m' = modifications m"
proof -
  let ?i = "currentIndex m" and ?n = "m_len m"
  define m1 where "m1 = m\<lparr>unmatched := unmatched m @ [Hunk (assignments m ! ?i)],
                    m_array := removeInPlace ?i ?n (m_array m), m_len := ?n - 1\<rparr>"
  define m2 where "m2 = (if currentIndex m1 \<ge> m_len m1 \<and> currentIndex m1 > 0
                   then m1\<lparr>currentIndex := currentIndex m1 - 1\<rparr> else m1)"
  have "unassign m = renderContent m2"
    using assms(2) by (auto simp: unassign_def Let_def m1_def m2_def)
  then have "renderContent m2 = Inr m'" using assms(1) by simp
  then have e: "m' = m2" by (auto simp: renderContent_def split: if_splits)
  have a2: "assignments m2 = assignments m1" "unmatched m2 = unmatched m1"
    "modifications m2 = modifications m1"
    by (simp_all add: m2_def assignments_def)
  let ?front = "take ?i (m_array m) @ drop (Suc ?i) (take ?n (m_array m))"
  have len: "length ?front = ?n - 1" using assms(2,3) by simp
  have "take (?n - 1) (?front @ drop (?n - 1) (m_array m)) = ?front"
    using len by (metis append_eq_conv_conj)
  moreover have "take ?i (m_array m) = take ?i (take ?n (m_array m))"
    using assms(2) by (simp add: min_def)
  ultimately have "take (?n - 1) (removeInPlace ?i ?n (m_array m))
      = take ?i (take ?n (m_array m)) @ drop (Suc ?i) (take ?n (m_array m))"
    by (simp add: removeInPlace_def)
  then show "assignments m' = take ?i (assignments m) @ drop (Suc ?i) (assignments m)"
    unfolding e a2 by (simp add: m1_def assignments_def)
  show "unmatched m' = unmatched m @ [Hunk (assignments m ! ?i)]"
    unfolding e a2 by (simp add: m1_def)
  show "modifications m' = modifications m" unfolding e a2 by (simp add: m1_def)
qed

lemma unassign_keeps_flags:
  assumes "unassign m = Inr m'"
  shows "mode m' = mode m" and "accepted m' = accepted m" and "cancelled m' = cancelled m"
  using assms by (auto simp: unassign_def renderContent_def Let_def split: if_splits)

text \<open>
  When an alternative was selected earlier in the review, so that \<^verbatim>\<open>modifications\<close> is
  not empty, unassign followed by accept does yield the response of the claim.
\<close>

lemma unassign_accept_with_modifications:
  assumes "mode m = ''review''" and "\<not> accepted m" and "\<not> cancelled m"
    and "currentIndex m < m_len m" and "m_len m \<le> length (m_array m)"
    and "modifications m \<noteq> []"
    and "Update ''u'' m = Inr m1" and "Update ''y'' m1 = Inr m2"
  shows "GetResult m2 = (True, Some
           \<lparr>Assignments = take (currentIndex m) (assignments m)
                            @ drop (Suc (currentIndex m)) (assignments m),
            UnmatchedHunks = unmatched m @ [Hunk (assignments m ! currentIndex m)]\<rparr>)"
proof -
  have u: "unassign m = Inr m1"
    using assms(1,7)
    by (simp add: Update_def Matches_def keysAccept_def keysCancel_def keysNextHunk_def
          keysPrevHunk_def keysAlternatives_def keysUnassign_def)
  note a = unassign_model[OF u assms(4,5)] and f = unassign_keeps_flags[OF u]
  have m2: "m2 = m1\<lparr>accepted := True\<rparr>"
    using assms(1,8) f(1) by (simp add: Update_def Matches_def keysAccept_def)
  show ?thesis
    unfolding m2 using a f assms(3,6) by (simp add: GetResult_def assignments_def)
qed

text \<open>
  \<^bold>\<open>C2\<close> (unassign then accept). The code fails the claim. From the response with the two
  assignments \<open>hunk_a\<close> to "fix a" and \<open>hunk_b\<close> to "add b" and no unmatched hunk, the keys
  \<^verbatim>\<open>u\<close> and \<^verbatim>\<open>y\<close> leave a model whose own lists are right (\<open>hunk_b\<close> assigned,
  \<open>hunk_a\<close> unmatched), but \<^verbatim>\<open>GetResult\<close> returns nil instead of a response, since
  unassign records nothing in \<^verbatim>\<open>modifications\<close>; the command then goes on with its old
  response, read through the shared array: the assignment of \<open>hunk_b\<close> twice and no
  unmatched hunk, \<open>hunk_a\<close> being in neither list.
\<close>

theorem unassign_accept_loses_hunk:
  "runKeys [''u'', ''y''] (NewAbsorbReviewModel resp_two)
     = Inr \<lparr>m_array = [assign_b, assign_b], m_len = 1, unmatched = [hunk_a], currentIndex = 0,
            selectedAlt = 0, accepted = True, cancelled = False, mode = ''review'',
            modifications = []\<rparr>
   \<and> GetResult \<lparr>m_array = [assign_b, assign_b], m_len = 1, unmatched = [hunk_a],
            currentIndex = 0, selectedAlt = 0, accepted = True, cancelled = False,
            mode = ''review'', modifications = []\<rparr> = (True, None)
   \<and> reviewedResponse resp_two [''u'', ''y'']
     = Inr (True, \<lparr>Assignments = [assign_b, assign_b], UnmatchedHunks = []\<rparr>)"
  by (simp add: reviewedResponse_def review_defs resp_two_def assign_b_def Let_def)

end
